theory Spec2Isabelle
  imports Main "HOL-Library.Word"
begin

unbundle bit_operations_syntax

section \<open>Lanes (ReactFiberLane)\<close>

text \<open>
  A lane set is a JavaScript number that the lane module only ever combines with the
  32-bit integer operators \<open>&\<close>, \<open>|\<close>, \<open>~\<close> and \<open><<\<close>. It is modelled as a 32-bit word:
  the bitwise operators are those of the word, \<open>x - 1\<close> wraps exactly as the following
  \<open>&\<close> of the source truncates it, and the comparison \<open>lanes > 0\<close> is the signed one.
  Only the low 31 bits are lanes (\<open>TotalLanes = 31\<close>); \<open>validLanes\<close> says that the sign
  bit is clear.

  A lane map is a JavaScript array indexed by the lane's bit position. It is modelled as a
  partial map from integer indices: an index that was never written reads as \<open>undefined\<close>
  (\<open>None\<close>), and a write at any index stores there.

  Timestamps are modelled as integers (milliseconds).
\<close>

type_synonym Lanes = "32 word"
type_synonym Lane = "32 word"
type_synonym LanePriority = nat
type_synonym 'a LaneMap = "int \<rightharpoonup> 'a"

definition SyncLanePriority :: LanePriority where "SyncLanePriority = 15"
definition SyncBatchedLanePriority :: LanePriority where "SyncBatchedLanePriority = 14"
definition InputDiscreteHydrationLanePriority :: LanePriority where
  "InputDiscreteHydrationLanePriority = 13"
definition InputDiscreteLanePriority :: LanePriority where "InputDiscreteLanePriority = 12"
definition InputContinuousHydrationLanePriority :: LanePriority where
  "InputContinuousHydrationLanePriority = 11"
definition InputContinuousLanePriority :: LanePriority where "InputContinuousLanePriority = 10"
definition DefaultHydrationLanePriority :: LanePriority where "DefaultHydrationLanePriority = 9"
definition DefaultLanePriority :: LanePriority where "DefaultLanePriority = 8"
definition TransitionHydrationPriority :: LanePriority where "TransitionHydrationPriority = 7"
definition TransitionPriority :: LanePriority where "TransitionPriority = 6"
definition RetryLanePriority :: LanePriority where "RetryLanePriority = 5"
definition SelectiveHydrationLanePriority :: LanePriority where
  "SelectiveHydrationLanePriority = 4"
definition IdleHydrationLanePriority :: LanePriority where "IdleHydrationLanePriority = 3"
definition IdleLanePriority :: LanePriority where "IdleLanePriority = 2"
definition OffscreenLanePriority :: LanePriority where "OffscreenLanePriority = 1"
definition NoLanePriority :: LanePriority where "NoLanePriority = 0"

definition TotalLanes :: int where "TotalLanes = 31"

definition NoLanes :: Lanes where
  "NoLanes = 0b0000000000000000000000000000000"
definition NoLane :: Lane where
  "NoLane = 0b0000000000000000000000000000000"
definition SyncLane :: Lane where
  "SyncLane = 0b0000000000000000000000000000001"
definition SyncBatchedLane :: Lane where
  "SyncBatchedLane = 0b0000000000000000000000000000010"
definition InputDiscreteHydrationLane :: Lane where
  "InputDiscreteHydrationLane = 0b0000000000000000000000000000100"
definition InputDiscreteLanes :: Lanes where
  "InputDiscreteLanes = 0b0000000000000000000000000011000"
definition InputContinuousHydrationLane :: Lane where
  "InputContinuousHydrationLane = 0b0000000000000000000000000100000"
definition InputContinuousLanes :: Lanes where
  "InputContinuousLanes = 0b0000000000000000000000011000000"
definition DefaultHydrationLane :: Lane where
  "DefaultHydrationLane = 0b0000000000000000000000100000000"
definition DefaultLanes :: Lanes where
  "DefaultLanes = 0b0000000000000000000111000000000"
definition TransitionHydrationLane :: Lane where
  "TransitionHydrationLane = 0b0000000000000000001000000000000"
definition TransitionLanes :: Lanes where
  "TransitionLanes = 0b0000000001111111110000000000000"
definition RetryLanes :: Lanes where
  "RetryLanes = 0b0000011110000000000000000000000"
definition SomeRetryLane :: Lanes where
  "SomeRetryLane = 0b0000010000000000000000000000000"
definition SelectiveHydrationLane :: Lane where
  "SelectiveHydrationLane = 0b0000100000000000000000000000000"
definition NonIdleLanes :: Lanes where
  "NonIdleLanes = 0b0000111111111111111111111111111"
definition IdleHydrationLane :: Lane where
  "IdleHydrationLane = 0b0001000000000000000000000000000"
definition IdleLanes :: Lanes where
  "IdleLanes = 0b0110000000000000000000000000000"
definition OffscreenLane :: Lane where
  "OffscreenLane = 0b1000000000000000000000000000000"

definition NoTimestamp :: int where "NoTimestamp = -1"

definition validLanes :: "Lanes \<Rightarrow> bool" where
  "validLanes lanes = (\<not> bit lanes 31)"

text \<open>The single lane at bit position \<open>i\<close>.\<close>

definition laneAt :: "nat \<Rightarrow> Lane" where
  "laneAt i = push_bit i 1"

subsection \<open>Primitives of the host language\<close>

text \<open>
  \<open>Math.clz32\<close>: the number of leading zero bits of the 32-bit value, 32 for zero.
  \<open>clz_from n w\<close> counts the zero bits below position \<open>n\<close>, from position \<open>n - 1\<close> down.
\<close>

primrec clz_from :: "nat \<Rightarrow> 32 word \<Rightarrow> nat" where
  "clz_from 0 w = 0"
| "clz_from (Suc k) w = (if bit w k then 0 else Suc (clz_from k w))"

definition clz32 :: "32 word \<Rightarrow> nat" where
  "clz32 w = clz_from 32 w"

text \<open>\<open>x << n\<close>: only the low five bits of the shift count are used.\<close>

definition js_shl :: "32 word \<Rightarrow> int \<Rightarrow> 32 word" where
  "js_shl x n = push_bit (nat (n mod 32)) x"

text \<open>\<open>lanes > 0\<close> on a 32-bit integer.\<close>

definition js_positive :: "32 word \<Rightarrow> bool" where
  "js_positive lanes = (0 <s lanes)"

subsection \<open>The root's lane registers\<close>

record FiberRoot =
  pendingLanes :: Lanes
  suspendedLanes :: Lanes
  pingedLanes :: Lanes
  expiredLanes :: Lanes
  mutableReadLanes :: Lanes
  entangledLanes :: Lanes
  eventTimes :: "int LaneMap"
  expirationTimes :: "int LaneMap"
  entanglements :: "Lanes LaneMap"

definition createLaneMap :: "'a \<Rightarrow> 'a LaneMap" where
  "createLaneMap initial = (\<lambda>i. if 0 \<le> i \<and> i < TotalLanes then Some initial else None)"

subsection \<open>Classification and bit tricks\<close>

text \<open>
  \<open>getHighestPriorityLanes\<close> returns the lanes and writes their priority to the register
  \<open>return_highestLanePriority\<close>; the model returns both as a pair.
\<close>

definition getHighestPriorityLanes :: "Lanes \<Rightarrow> Lanes \<times> LanePriority" where
  "getHighestPriorityLanes lanes =
    (if SyncLane AND lanes \<noteq> NoLanes then (SyncLane, SyncLanePriority)
     else if SyncBatchedLane AND lanes \<noteq> NoLanes then (SyncBatchedLane, SyncBatchedLanePriority)
     else if InputDiscreteHydrationLane AND lanes \<noteq> NoLanes
       then (InputDiscreteHydrationLane, InputDiscreteHydrationLanePriority)
     else if InputDiscreteLanes AND lanes \<noteq> NoLanes
       then (InputDiscreteLanes AND lanes, InputDiscreteLanePriority)
     else if lanes AND InputContinuousHydrationLane \<noteq> NoLanes
       then (InputContinuousHydrationLane, InputContinuousHydrationLanePriority)
     else if InputContinuousLanes AND lanes \<noteq> NoLanes
       then (InputContinuousLanes AND lanes, InputContinuousLanePriority)
     else if lanes AND DefaultHydrationLane \<noteq> NoLanes
       then (DefaultHydrationLane, DefaultHydrationLanePriority)
     else if DefaultLanes AND lanes \<noteq> NoLanes
       then (DefaultLanes AND lanes, DefaultLanePriority)
     else if lanes AND TransitionHydrationLane \<noteq> NoLanes
       then (TransitionHydrationLane, TransitionHydrationPriority)
     else if TransitionLanes AND lanes \<noteq> NoLanes
       then (TransitionLanes AND lanes, TransitionPriority)
     else if RetryLanes AND lanes \<noteq> NoLanes
       then (RetryLanes AND lanes, RetryLanePriority)
     else if lanes AND SelectiveHydrationLane \<noteq> 0
       then (SelectiveHydrationLane, SelectiveHydrationLanePriority)
     else if lanes AND IdleHydrationLane \<noteq> NoLanes
       then (IdleHydrationLane, IdleHydrationLanePriority)
     else if IdleLanes AND lanes \<noteq> NoLanes
       then (IdleLanes AND lanes, IdleLanePriority)
     else if OffscreenLane AND lanes \<noteq> NoLanes
       then (OffscreenLane, OffscreenLanePriority)
     else (lanes, DefaultLanePriority))"

definition getHighestPriorityLane :: "Lanes \<Rightarrow> Lane" where
  "getHighestPriorityLane lanes = lanes AND (- lanes)"

definition pickArbitraryLane :: "Lanes \<Rightarrow> Lane" where
  "pickArbitraryLane lanes = getHighestPriorityLane lanes"

definition pickArbitraryLaneIndex :: "Lanes \<Rightarrow> int" where
  "pickArbitraryLaneIndex lanes = 31 - int (clz32 lanes)"

definition laneToIndex :: "Lane \<Rightarrow> int" where
  "laneToIndex lane = pickArbitraryLaneIndex lane"

definition getLowestPriorityLane :: "Lanes \<Rightarrow> Lane" where
  "getLowestPriorityLane lanes =
    (let index = 31 - int (clz32 lanes)
     in if index < 0 then NoLanes else js_shl 1 index)"

definition getEqualOrHigherPriorityLanes :: "Lanes \<Rightarrow> Lanes" where
  "getEqualOrHigherPriorityLanes lanes = js_shl (getLowestPriorityLane lanes) 1 - 1"

definition includesSomeLane :: "Lanes \<Rightarrow> Lanes \<Rightarrow> bool" where
  "includesSomeLane a b = (a AND b \<noteq> NoLanes)"

definition isSubsetOfLanes :: "Lanes \<Rightarrow> Lanes \<Rightarrow> bool" where
  "isSubsetOfLanes lset sub = (lset AND sub = sub)"

definition mergeLanes :: "Lanes \<Rightarrow> Lanes \<Rightarrow> Lanes" where
  "mergeLanes a b = a OR b"

definition removeLanes :: "Lanes \<Rightarrow> Lanes \<Rightarrow> Lanes" where
  "removeLanes lset sub = lset AND NOT sub"

subsection \<open>Marking the root\<close>

definition markRootUpdated :: "FiberRoot \<Rightarrow> Lane \<Rightarrow> int \<Rightarrow> FiberRoot" where
  "markRootUpdated root updateLane eventTime =
    (let higherPriorityLanes = updateLane - 1;
         index = laneToIndex updateLane
     in root\<lparr>pendingLanes := pendingLanes root OR updateLane,
             suspendedLanes := suspendedLanes root AND higherPriorityLanes,
             pingedLanes := pingedLanes root AND higherPriorityLanes,
             eventTimes := (eventTimes root)(index \<mapsto> eventTime)\<rparr>)"


definition markRootPinged :: "FiberRoot \<Rightarrow> Lanes \<Rightarrow> int \<Rightarrow> FiberRoot" where
  "markRootPinged root pinged eventTime =
    root\<lparr>pingedLanes := pingedLanes root OR (suspendedLanes root AND pinged)\<rparr>"

definition markRootExpired :: "FiberRoot \<Rightarrow> Lanes \<Rightarrow> FiberRoot" where
  "markRootExpired root expired =
    root\<lparr>expiredLanes := expiredLanes root OR (expired AND pendingLanes root)\<rparr>"

definition markRootMutableRead :: "FiberRoot \<Rightarrow> Lane \<Rightarrow> FiberRoot" where
  "markRootMutableRead root updateLane =
    root\<lparr>mutableReadLanes := mutableReadLanes root OR (updateLane AND pendingLanes root)\<rparr>"

subsection \<open>The loop over the lanes of a set\<close>

text \<open>
  Every loop of the module has the shape
  \<^verbatim>\<open>while (lanes > 0) { index = pickArbitraryLaneIndex(lanes); lane = 1 << index; ...; lanes &= ~lane; }\<close>
  It visits the set bits from the most significant one down. The facts below say what
  \<open>clz32\<close> finds and that clearing the found bit makes the set smaller, which is the
  termination argument of each loop.
\<close>

definition topBit :: "32 word \<Rightarrow> nat" where
  "topBit w = 31 - clz32 w"

lemma clz_from_le: "clz_from n w \<le> n"
  by (induction n) auto

lemma clz_from_full: "clz_from n w = n \<longleftrightarrow> (\<forall>j<n. \<not> bit w j)"
proof (induction n)
  case 0
  show ?case by simp
next
  case (Suc n)
  show ?case using Suc clz_from_le[of n w] by (auto simp: less_Suc_eq)
qed

lemma clz_from_top:
  assumes "clz_from n w < n"
  shows "bit w (n - 1 - clz_from n w)
    \<and> (\<forall>j. n - 1 - clz_from n w < j \<and> j < n \<longrightarrow> \<not> bit w j)"
  using assms
proof (induction n)
  case 0
  then show ?case by simp
next
  case (Suc n)
  show ?case
  proof (cases "bit w n")
    case True
    then show ?thesis by auto
  next
    case False
    with Suc.prems have lt: "clz_from n w < n" by simp
    from Suc.IH[OF lt] False show ?thesis
      by (auto simp: less_Suc_eq)
  qed
qed

lemma clz32_zero_iff: "clz32 w = 32 \<longleftrightarrow> w = 0"
proof -
  have "clz32 w = 32 \<longleftrightarrow> (\<forall>j<32. \<not> bit w j)"
    unfolding clz32_def by (rule clz_from_full)
  also have "\<dots> \<longleftrightarrow> w = 0"
    by (auto intro!: bit_word_eqI)
  finally show ?thesis .
qed

lemma topBit_props:
  assumes "w \<noteq> 0"
  shows "clz32 w < 32" "bit w (topBit w)" "\<And>j. topBit w < j \<Longrightarrow> \<not> bit w j"
proof -
  show lt: "clz32 w < 32"
    using assms clz32_zero_iff[of w] clz_from_le[of 32 w] by (simp add: clz32_def)
  from clz_from_top[of 32 w] lt
  show "bit w (topBit w)" by (simp add: clz32_def topBit_def)
  fix j assume "topBit w < j"
  show "\<not> bit w j"
  proof (cases "j < 32")
    case True
    with clz_from_top[of 32 w] lt \<open>topBit w < j\<close> show ?thesis
      by (simp add: clz32_def topBit_def)
  next
    case False
    then show ?thesis using bit_imp_le_length[of w j] by auto
  qed
qed

lemma js_positive_iff: "js_positive w \<longleftrightarrow> w \<noteq> 0 \<and> \<not> bit w 31"
proof -
  have "js_positive w \<longleftrightarrow> 0 < sint w" by (simp add: js_positive_def word_sless_alt)
  also have "\<dots> \<longleftrightarrow> sint w \<noteq> 0 \<and> \<not> sint w < 0" by auto
  also have "\<dots> \<longleftrightarrow> w \<noteq> 0 \<and> \<not> bit w 31"
    using bit_last_iff[of w] by (simp add: signed_eq_0_iff)
  finally show ?thesis .
qed

lemma topBit_lt: "js_positive w \<Longrightarrow> topBit w < 31"
  using topBit_props(2)[of w] by (auto simp: js_positive_iff topBit_def intro: le_neq_trans)

lemma pickArbitraryLaneIndex_topBit:
  "w \<noteq> 0 \<Longrightarrow> pickArbitraryLaneIndex w = int (topBit w)"
  using topBit_props(1)[of w] by (simp add: pickArbitraryLaneIndex_def topBit_def)

lemma js_shl_1_nat: "i < 32 \<Longrightarrow> js_shl 1 (int i) = laneAt i"
  by (simp add: js_shl_def laneAt_def)

lemma bit_laneAt: "bit (laneAt i) j \<longleftrightarrow> i = j \<and> j < 32"
  by (auto simp: laneAt_def bit_simps)

lemma clear_top_less:
  assumes "w \<noteq> 0"
  shows "unat (w AND NOT (laneAt (topBit w))) < unat w"
proof -
  let ?v = "w AND NOT (laneAt (topBit w))"
  have t: "bit w (topBit w)" using assms by (rule topBit_props(2))
  then have "topBit w < 32" using bit_imp_le_length[of w "topBit w"] by simp
  then have "\<not> bit ?v (topBit w)" by (simp add: bit_simps bit_laneAt)
  with t have "?v \<noteq> w" by auto
  moreover have "?v \<le> w" by (rule word_and_le2)
  ultimately have "?v < w" by simp
  then show ?thesis by (rule unat_mono)
qed

lemma loop_step_less:
  assumes "js_positive lanes"
  shows "unat (lanes AND NOT (js_shl 1 (pickArbitraryLaneIndex lanes))) < unat lanes"
proof -
  from assms have nz: "lanes \<noteq> 0" by (simp add: js_positive_iff)
  have "topBit lanes < 32" using topBit_lt[OF assms] by simp
  then show ?thesis
    using clear_top_less[OF nz] by (simp add: pickArbitraryLaneIndex_topBit[OF nz] js_shl_1_nat)
qed

text \<open>The loop of \<open>markRootFinished\<close>, on the three tables.\<close>

function markRootFinished_loop ::
  "Lanes \<Rightarrow> Lanes LaneMap \<times> int LaneMap \<times> int LaneMap
    \<Rightarrow> Lanes LaneMap \<times> int LaneMap \<times> int LaneMap" where
  "markRootFinished_loop lanes (entangl, eventT, expirationT) =
    (if js_positive lanes then
       (let index = pickArbitraryLaneIndex lanes;
            lane = js_shl 1 index
        in markRootFinished_loop (lanes AND NOT lane)
             (entangl(index \<mapsto> NoLanes),
              eventT(index \<mapsto> NoTimestamp),
              expirationT(index \<mapsto> NoTimestamp)))
     else (entangl, eventT, expirationT))"
  by pat_completeness auto
termination
  by (relation "measure (\<lambda>(lanes, tables). unat lanes)") (auto simp: loop_step_less)

declare markRootFinished_loop.simps [simp del]

definition markRootFinished :: "FiberRoot \<Rightarrow> Lanes \<Rightarrow> FiberRoot" where
  "markRootFinished root remainingLanes =
    (let noLongerPendingLanes = pendingLanes root AND NOT remainingLanes;
         (entanglements', eventTimes', expirationTimes') =
            markRootFinished_loop noLongerPendingLanes
              (entanglements root, eventTimes root, expirationTimes root)
     in root\<lparr>pendingLanes := remainingLanes,
             suspendedLanes := 0,
             pingedLanes := 0,
             expiredLanes := expiredLanes root AND remainingLanes,
             mutableReadLanes := mutableReadLanes root AND remainingLanes,
             entangledLanes := entangledLanes root AND remainingLanes,
             entanglements := entanglements',
             eventTimes := eventTimes',
             expirationTimes := expirationTimes'\<rparr>)"

text \<open>
  The loop of \<open>markRootEntangled\<close>. \<open>entanglements[index] |= entangledLanes\<close> on a slot
  that was never written reads \<open>undefined\<close>, which \<open>|\<close> takes as 0.
\<close>

definition laneMapGet :: "Lanes LaneMap \<Rightarrow> int \<Rightarrow> Lanes" where
  "laneMapGet m index = (case m index of None \<Rightarrow> 0 | Some lanes \<Rightarrow> lanes)"

function markRootEntangled_loop :: "Lanes \<Rightarrow> Lanes \<Rightarrow> Lanes LaneMap \<Rightarrow> Lanes LaneMap" where
  "markRootEntangled_loop entangled lanes entangl =
    (if js_positive lanes then
       (let index = pickArbitraryLaneIndex lanes;
            lane = js_shl 1 index
        in markRootEntangled_loop entangled (lanes AND NOT lane)
             (entangl(index \<mapsto> laneMapGet entangl index OR entangled)))
     else entangl)"
  by pat_completeness auto
termination
  by (relation "measure (\<lambda>(entangled, lanes, entangl). unat lanes)")
    (auto simp: loop_step_less)

declare markRootEntangled_loop.simps [simp del]

definition markRootEntangled :: "FiberRoot \<Rightarrow> Lanes \<Rightarrow> FiberRoot" where
  "markRootEntangled root entangled =
    root\<lparr>entangledLanes := entangledLanes root OR entangled,
         entanglements := markRootEntangled_loop entangled entangled (entanglements root)\<rparr>"

subsection \<open>Starvation\<close>

definition computeExpirationTime :: "Lane \<Rightarrow> int \<Rightarrow> int" where
  "computeExpirationTime lane currentTime =
    (let priority = snd (getHighestPriorityLanes lane)
     in if priority \<ge> InputContinuousLanePriority then currentTime + 250
        else if priority \<ge> TransitionPriority then currentTime + 5000
        else NoTimestamp)"

text \<open>\<open>expirationTime <= currentTime\<close>, false when the slot is \<open>undefined\<close>.\<close>

definition js_le_time :: "int option \<Rightarrow> int \<Rightarrow> bool" where
  "js_le_time expirationTime currentTime =
    (case expirationTime of None \<Rightarrow> False | Some t \<Rightarrow> t \<le> currentTime)"

function markStarvedLanesAsExpired_loop ::
  "Lanes \<Rightarrow> Lanes \<Rightarrow> int \<Rightarrow> Lanes \<Rightarrow> FiberRoot \<Rightarrow> FiberRoot" where
  "markStarvedLanesAsExpired_loop suspended pinged currentTime lanes root =
    (if js_positive lanes then
       (let index = pickArbitraryLaneIndex lanes;
            lane = js_shl 1 index;
            expirationTime = expirationTimes root index
        in markStarvedLanesAsExpired_loop suspended pinged currentTime (lanes AND NOT lane)
             (if expirationTime = Some NoTimestamp then
                (if lane AND suspended = NoLanes \<or> lane AND pinged \<noteq> NoLanes
                 then root\<lparr>expirationTimes :=
                        (expirationTimes root)(index \<mapsto> computeExpirationTime lane currentTime)\<rparr>
                 else root)
              else if js_le_time expirationTime currentTime
                then root\<lparr>expiredLanes := expiredLanes root OR lane\<rparr>
              else root))
     else root)"
  by pat_completeness auto
termination
  by (relation "measure (\<lambda>(suspended, pinged, currentTime, lanes, root). unat lanes)")
    (auto simp: loop_step_less)

declare markStarvedLanesAsExpired_loop.simps [simp del]

definition markStarvedLanesAsExpired :: "FiberRoot \<Rightarrow> int \<Rightarrow> FiberRoot" where
  "markStarvedLanesAsExpired root currentTime =
    markStarvedLanesAsExpired_loop (suspendedLanes root) (pingedLanes root) currentTime
      (pendingLanes root) root"

subsection \<open>Choosing the next lanes\<close>

text \<open>
  The loop that adds the entangled lanes to the chosen ones.
\<close>

function getNextLanes_entangled_loop :: "Lanes LaneMap \<Rightarrow> Lanes \<Rightarrow> Lanes \<Rightarrow> Lanes" where
  "getNextLanes_entangled_loop entangl lanes nextLanes =
    (if js_positive lanes then
       (let index = pickArbitraryLaneIndex lanes;
            lane = js_shl 1 index
        in getNextLanes_entangled_loop entangl (lanes AND NOT lane)
             (nextLanes OR laneMapGet entangl index))
     else nextLanes)"
  by pat_completeness auto
termination
  by (relation "measure (\<lambda>(entangl, lanes, nextLanes). unat lanes)")
    (auto simp: loop_step_less)

declare getNextLanes_entangled_loop.simps [simp del]

text \<open>
  \<open>getNextLanes\<close> returns the lanes to work on. Its writes to the register
  \<open>return_highestLanePriority\<close> are not part of the returned lanes; the value it reads
  back from the register is always the one \<open>getHighestPriorityLanes\<close> has just written,
  which the model takes from the returned pair.

  \<open>getNextLanes_select\<close> is the first part of the function's body, the cascade that sets
  the local variables \<open>nextLanes\<close> and \<open>nextLanePriority\<close> on a root with pending lanes.
\<close>

definition getNextLanes_select :: "FiberRoot \<Rightarrow> Lanes \<times> LanePriority" where
  "getNextLanes_select root =
    (if expiredLanes root \<noteq> NoLanes then (expiredLanes root, SyncLanePriority)
     else
       let nonIdlePendingLanes = pendingLanes root AND NonIdleLanes in
       if nonIdlePendingLanes \<noteq> NoLanes then
         (let nonIdleUnblockedLanes = nonIdlePendingLanes AND NOT (suspendedLanes root) in
          if nonIdleUnblockedLanes \<noteq> NoLanes
            then getHighestPriorityLanes nonIdleUnblockedLanes
          else
            let nonIdlePingedLanes = nonIdlePendingLanes AND pingedLanes root in
            if nonIdlePingedLanes \<noteq> NoLanes
              then getHighestPriorityLanes nonIdlePingedLanes
            else (NoLanes, NoLanePriority))
       else
         (let unblockedLanes = pendingLanes root AND NOT (suspendedLanes root) in
          if unblockedLanes \<noteq> NoLanes then getHighestPriorityLanes unblockedLanes
          else if pingedLanes root \<noteq> NoLanes
            then getHighestPriorityLanes (pingedLanes root)
          else (NoLanes, NoLanePriority)))"

definition getNextLanes :: "FiberRoot \<Rightarrow> Lanes \<Rightarrow> Lanes" where
  "getNextLanes root wipLanes =
    (if pendingLanes root = NoLanes then NoLanes
     else
       let (nextLanes, nextLanePriority) = getNextLanes_select root
       in
         if nextLanes = NoLanes then NoLanes
         else
           let nextLanes = pendingLanes root AND getEqualOrHigherPriorityLanes nextLanes in
           if wipLanes \<noteq> NoLanes \<and> wipLanes \<noteq> nextLanes
              \<and> wipLanes AND suspendedLanes root = NoLanes
              \<and> nextLanePriority \<le> snd (getHighestPriorityLanes wipLanes)
           then wipLanes
           else if entangledLanes root \<noteq> NoLanes
             then getNextLanes_entangled_loop (entanglements root)
                    (nextLanes AND entangledLanes root) nextLanes
           else nextLanes)"

text \<open>
  The condition under which \<open>getNextLanes\<close> returns \<open>wipLanes\<close>, the lanes of the render
  in progress, as they are: there is a selection, \<open>wipLanes\<close> is nonempty, differs from the
  selection and has no suspended lane, and the priority of the selection is not higher than
  that of \<open>wipLanes\<close>.
\<close>

definition getNextLanes_keepsWip :: "FiberRoot \<Rightarrow> Lanes \<Rightarrow> bool" where
  "getNextLanes_keepsWip root wipLanes =
    (pendingLanes root \<noteq> NoLanes
     \<and> (let (nextLanes, nextLanePriority) = getNextLanes_select root
        in nextLanes \<noteq> NoLanes
           \<and> wipLanes \<noteq> NoLanes
           \<and> wipLanes \<noteq> pendingLanes root AND getEqualOrHigherPriorityLanes nextLanes
           \<and> wipLanes AND suspendedLanes root = NoLanes
           \<and> nextLanePriority \<le> snd (getHighestPriorityLanes wipLanes)))"

text \<open>An initial root, as \<open>createLaneMap\<close> fills its tables; used for the examples.\<close>

definition emptyRoot :: FiberRoot where
  "emptyRoot = \<lparr>pendingLanes = NoLanes, suspendedLanes = NoLanes, pingedLanes = NoLanes,
     expiredLanes = NoLanes, mutableReadLanes = NoLanes, entangledLanes = NoLanes,
     eventTimes = createLaneMap 0, expirationTimes = createLaneMap NoTimestamp,
     entanglements = createLaneMap NoLanes\<rparr>"

definition starvedRoot :: FiberRoot where
  "starvedRoot = emptyRoot\<lparr>pendingLanes := 0b1000000001,
     expirationTimes := (createLaneMap NoTimestamp)(0 \<mapsto> 40)\<rparr>"

definition expiredRoot :: FiberRoot where
  "expiredRoot = emptyRoot\<lparr>pendingLanes := 0b1000000001, expiredLanes := 0b1000000000\<rparr>"

definition entangledRoot :: FiberRoot where
  "entangledRoot = emptyRoot\<lparr>pendingLanes := 0b11000000000\<rparr>"

definition entangledPair :: Lanes where
  "entangledPair = 0b10001000000000"

definition transitionRoot :: FiberRoot where
  "transitionRoot = emptyRoot\<lparr>pendingLanes := entangledPair\<rparr>"

section \<open>The scheduler (Scheduler.js)\<close>

text \<open>
  The \<open>options\<close> argument of \<open>unstable_scheduleCallback\<close>: an object, with a numeric
  \<open>delay\<close> or without one, or something that is not an object.
\<close>

datatype options = NoOptions | Options "int option"

text \<open>
  A task callback is a JavaScript function. The work loop calls it with the argument
  \<open>didUserCallbackTimeout\<close>; while it runs it takes time and may call the scheduler's
  interface (\<open>unstable_scheduleCallback\<close> is written to be called from inside a callback, see
  its test of \<open>isPerformingWork\<close>); then it returns a value, a continuation or something
  that is not a function, or it throws. The model of a callback is that behaviour, for
  either value of the argument: the calls it makes, in order, and how it ends. What a
  callback does depends on that argument only, not on what it could read from the
  scheduler. A task is named in a call by its address in the store of task objects (see
  below).

  The calls of the profiling module (under \<open>enableProfiling\<close>) only write marks for a
  profiler; they are left out.
\<close>

type_synonym TaskRef = nat

datatype callback = Callback (onTimeout: behaviour) (otherwise: behaviour)
and behaviour =
    Return (calls: "call list") (continuation: "callback option")
  | Throw (calls: "call list")
and call =
    Busy nat
  | ScheduleCall int callback options
  | CancelCall TaskRef
  | PauseCall
  | ContinueCall

text \<open>What a task callback throws.\<close>

datatype error = CallbackError

definition NoPriority :: int where "NoPriority = 0"
definition ImmediatePriority :: int where "ImmediatePriority = 1"
definition UserBlockingPriority :: int where "UserBlockingPriority = 2"
definition NormalPriority :: int where "NormalPriority = 3"
definition LowPriority :: int where "LowPriority = 4"
definition IdlePriority :: int where "IdlePriority = 5"

definition maxSigned31BitInt :: int where "maxSigned31BitInt = 1073741823"
definition IMMEDIATE_PRIORITY_TIMEOUT :: int where "IMMEDIATE_PRIORITY_TIMEOUT = -1"
definition USER_BLOCKING_PRIORITY_TIMEOUT :: int where "USER_BLOCKING_PRIORITY_TIMEOUT = 250"
definition NORMAL_PRIORITY_TIMEOUT :: int where "NORMAL_PRIORITY_TIMEOUT = 5000"
definition LOW_PRIORITY_TIMEOUT :: int where "LOW_PRIORITY_TIMEOUT = 10000"
definition IDLE_PRIORITY_TIMEOUT :: int where "IDLE_PRIORITY_TIMEOUT = maxSigned31BitInt"

text \<open>
  A task is an object that the queues and the task handle returned by
  \<open>unstable_scheduleCallback\<close> share, and that \<open>unstable_cancelCallback\<close> and the work loop
  mutate in place. The model keeps the task objects in a store, addressed by the task's
  \<open>id\<close> (the counter \<open>taskIdCounter\<close> makes it unique); the queues hold addresses. The
  field \<open>id\<close> is called \<open>taskId\<close> here.
\<close>

record Task =
  taskId :: nat
  callback :: "callback option"
  priorityLevel :: int
  startTime :: int
  expirationTime :: int
  sortIndex :: int

record Scheduler =
  objects :: "TaskRef \<Rightarrow> Task"
  taskQueue :: "TaskRef list"
  timerQueue :: "TaskRef list"
  taskIdCounter :: nat
  enableSchedulerDebugging :: bool
  isSchedulerPaused :: bool
  currentTask :: "TaskRef option"
  currentPriorityLevel :: int
  isPerformingWork :: bool
  isHostCallbackScheduled :: bool
  isHostTimeoutScheduled :: bool
  hostTime :: int
  deadline :: int
  scheduledHostCallback :: bool
  taskTimeout :: "int option"
  invocations :: "(TaskRef \<times> bool) list"

subsection \<open>The host (SchedulerHostConfig)\<close>

text \<open>
  The host's clock is the field \<open>hostTime\<close>; it advances while a callback runs.
  \<open>shouldYieldToHost\<close> compares it with the deadline of the current slice, as the host
  configuration for a browser without \<open>isInputPending\<close> does. A requested host callback or
  timeout is recorded; \<open>invocations\<close> records the callbacks the work loop has invoked, with
  the argument it passed. The flag \<open>enableSchedulerDebugging\<close> of the feature flags is a
  field of the state.
\<close>

definition getCurrentTime :: "Scheduler \<Rightarrow> int" where
  "getCurrentTime s = hostTime s"

definition shouldYieldToHost :: "Scheduler \<Rightarrow> bool" where
  "shouldYieldToHost s = (getCurrentTime s \<ge> deadline s)"

definition requestHostCallback :: "Scheduler \<Rightarrow> Scheduler" where
  "requestHostCallback s = s\<lparr>scheduledHostCallback := True\<rparr>"

definition requestHostTimeout :: "int \<Rightarrow> Scheduler \<Rightarrow> Scheduler" where
  "requestHostTimeout ms s = s\<lparr>taskTimeout := Some ms\<rparr>"

definition cancelHostTimeout :: "Scheduler \<Rightarrow> Scheduler" where
  "cancelHostTimeout s = s\<lparr>taskTimeout := None\<rparr>"

subsection \<open>The min heap (SchedulerMinHeap)\<close>

text \<open>
  Modelled from the spec: the module SchedulerMinHeap (\<open>push\<close>, \<open>peek\<close>, \<open>pop\<close> and their
  comparator) is imported by Scheduler.js but is not among the sources. The spec gives its
  contract: \<open>push\<close> inserts a node, \<open>peek\<close> returns the minimum node or null, \<open>pop\<close> removes
  the minimum; nodes are compared by \<open>sortIndex\<close> and, if equal, by \<open>id\<close>, both ascending.
  The model keeps the nodes of a heap in a list and finds the minimum by that comparison.
\<close>

definition compare :: "Task \<Rightarrow> Task \<Rightarrow> int" where
  "compare a b =
    (let diff = sortIndex a - sortIndex b
     in if diff \<noteq> 0 then diff else int (taskId a) - int (taskId b))"

text \<open>
  Modelled from the spec: the minimum of a nonempty heap under \<open>compare\<close>, the first one
  among equals.
\<close>

fun heap_min :: "(TaskRef \<Rightarrow> Task) \<Rightarrow> TaskRef \<Rightarrow> TaskRef list \<Rightarrow> TaskRef" where
  "heap_min store m [] = m"
| "heap_min store m (r # rs) =
     heap_min store (if compare (store r) (store m) < 0 then r else m) rs"

text \<open>Modelled from the spec: \<open>peek\<close> returns the minimum node, or null on an empty heap.\<close>

definition peek :: "(TaskRef \<Rightarrow> Task) \<Rightarrow> TaskRef list \<Rightarrow> TaskRef option" where
  "peek store heap = (case heap of [] \<Rightarrow> None | r # rs \<Rightarrow> Some (heap_min store r rs))"

text \<open>Modelled from the spec: \<open>pop\<close> removes the minimum node.\<close>

definition pop :: "(TaskRef \<Rightarrow> Task) \<Rightarrow> TaskRef list \<Rightarrow> TaskRef list" where
  "pop store heap = (case peek store heap of None \<Rightarrow> heap | Some m \<Rightarrow> remove1 m heap)"

text \<open>Modelled from the spec: \<open>push\<close> inserts a node.\<close>

definition push :: "TaskRef list \<Rightarrow> TaskRef \<Rightarrow> TaskRef list" where
  "push heap node = heap @ [node]"

lemma heap_min_in: "heap_min store m rs \<in> set (m # rs)"
  by (induction rs arbitrary: m) auto

lemma peek_in_set: "peek store heap = Some m \<Longrightarrow> m \<in> set heap"
  using heap_min_in by (auto simp: peek_def split: list.splits)

lemma length_pop: "peek store heap = Some m \<Longrightarrow> length (pop store heap) < length heap"
  by (frule peek_in_set) (auto simp: pop_def length_remove1 dest: length_pos_if_in_set)

subsection \<open>Timers\<close>

function advanceTimers :: "int \<Rightarrow> Scheduler \<Rightarrow> Scheduler" where
  "advanceTimers currentTime s =
    (case peek (objects s) (timerQueue s) of
       None \<Rightarrow> s
     | Some timer \<Rightarrow>
         if callback (objects s timer) = None
           then advanceTimers currentTime (s\<lparr>timerQueue := pop (objects s) (timerQueue s)\<rparr>)
         else if startTime (objects s timer) \<le> currentTime
           then advanceTimers currentTime
                  (s\<lparr>timerQueue := pop (objects s) (timerQueue s),
                     objects := (objects s)
                       (timer := (objects s timer)\<lparr>sortIndex := expirationTime (objects s timer)\<rparr>),
                     taskQueue := push (taskQueue s) timer\<rparr>)
         else s)"
  by pat_completeness auto
termination
  by (relation "measure (\<lambda>(currentTime, s). length (timerQueue s))") (auto simp: length_pop)

declare advanceTimers.simps [simp del]



subsection \<open>The scheduler's interface: scheduling and cancelling\<close>

definition unstable_scheduleCallback ::
  "int \<Rightarrow> callback \<Rightarrow> options \<Rightarrow> Scheduler \<Rightarrow> TaskRef \<times> Scheduler" where
  "unstable_scheduleCallback level cb opts s =
    (let currentTime = getCurrentTime s;
         startTime' =
           (case opts of
              Options (Some delay) \<Rightarrow> if delay > 0 then currentTime + delay else currentTime
            | Options None \<Rightarrow> currentTime
            | NoOptions \<Rightarrow> currentTime);
         timeout =
           (if level = ImmediatePriority then IMMEDIATE_PRIORITY_TIMEOUT
            else if level = UserBlockingPriority then USER_BLOCKING_PRIORITY_TIMEOUT
            else if level = IdlePriority then IDLE_PRIORITY_TIMEOUT
            else if level = LowPriority then LOW_PRIORITY_TIMEOUT
            else NORMAL_PRIORITY_TIMEOUT);
         expirationTime' = startTime' + timeout;
         newTask = taskIdCounter s;
         task = \<lparr>taskId = taskIdCounter s, callback = Some cb, priorityLevel = level,
                 startTime = startTime', expirationTime = expirationTime', sortIndex = -1\<rparr>;
         s1 = s\<lparr>taskIdCounter := taskIdCounter s + 1\<rparr>
     in if startTime' > currentTime then
          (let s2 = s1\<lparr>objects := (objects s1)(newTask := task\<lparr>sortIndex := startTime'\<rparr>),
                       timerQueue := push (timerQueue s1) newTask\<rparr>
           in if peek (objects s2) (taskQueue s2) = None
                 \<and> Some newTask = peek (objects s2) (timerQueue s2)
              then
                (let s3 = (if isHostTimeoutScheduled s2 then cancelHostTimeout s2
                           else s2\<lparr>isHostTimeoutScheduled := True\<rparr>)
                 in (newTask, requestHostTimeout (startTime' - currentTime) s3))
              else (newTask, s2))
        else
          (let s2 = s1\<lparr>objects := (objects s1)(newTask := task\<lparr>sortIndex := expirationTime'\<rparr>),
                       taskQueue := push (taskQueue s1) newTask\<rparr>
           in if \<not> isHostCallbackScheduled s2 \<and> \<not> isPerformingWork s2
              then (newTask, requestHostCallback (s2\<lparr>isHostCallbackScheduled := True\<rparr>))
              else (newTask, s2)))"

definition unstable_pauseExecution :: "Scheduler \<Rightarrow> Scheduler" where
  "unstable_pauseExecution s = s\<lparr>isSchedulerPaused := True\<rparr>"

definition unstable_continueExecution :: "Scheduler \<Rightarrow> Scheduler" where
  "unstable_continueExecution s =
    (let s1 = s\<lparr>isSchedulerPaused := False\<rparr>
     in if \<not> isHostCallbackScheduled s1 \<and> \<not> isPerformingWork s1
        then requestHostCallback (s1\<lparr>isHostCallbackScheduled := True\<rparr>)
        else s1)"

definition unstable_getFirstCallbackNode :: "Scheduler \<Rightarrow> TaskRef option" where
  "unstable_getFirstCallbackNode s = peek (objects s) (taskQueue s)"

definition unstable_cancelCallback :: "TaskRef \<Rightarrow> Scheduler \<Rightarrow> Scheduler" where
  "unstable_cancelCallback task s =
    s\<lparr>objects := (objects s)(task := (objects s task)\<lparr>callback := None\<rparr>)\<rparr>"

text \<open>
  Running the calls of a callback: busy time advances the host's clock, the other calls
  are those of the interface.
\<close>

fun runCall :: "call \<Rightarrow> Scheduler \<Rightarrow> Scheduler" where
  "runCall (Busy ms) s = s\<lparr>hostTime := hostTime s + int ms\<rparr>"
| "runCall (ScheduleCall level cb opts) s = snd (unstable_scheduleCallback level cb opts s)"
| "runCall (CancelCall task) s = unstable_cancelCallback task s"
| "runCall PauseCall s = unstable_pauseExecution s"
| "runCall ContinueCall s = unstable_continueExecution s"

definition runCalls :: "call list \<Rightarrow> Scheduler \<Rightarrow> Scheduler" where
  "runCalls cs s = fold runCall cs s"

text \<open>Invoking a callback: its behaviour for the argument it is given.\<close>

definition invoke :: "callback \<Rightarrow> bool \<Rightarrow> behaviour" where
  "invoke cb didUserCallbackTimeout =
    (if didUserCallbackTimeout then onTimeout cb else otherwise cb)"

subsection \<open>The work loop\<close>

text \<open>
  The body of the loop on the task \<open>currentTask\<close>, after the test for yielding: it runs the
  task's callback or drops the cancelled task, and reads the next \<open>currentTask\<close> from the
  head of the task queue. It returns the local variable \<open>currentTime\<close> with the state; if
  the callback throws, the exception leaves the loop at that point.
\<close>

definition workLoop_body :: "int \<Rightarrow> TaskRef \<Rightarrow> Scheduler \<Rightarrow> (error + int) \<times> Scheduler" where
  "workLoop_body currentTime task s =
    (case callback (objects s task) of
       Some cb \<Rightarrow>
         (let s1 = s\<lparr>objects := (objects s)(task := (objects s task)\<lparr>callback := None\<rparr>)\<rparr>;
              s2 = s1\<lparr>currentPriorityLevel := priorityLevel (objects s1 task)\<rparr>;
              didUserCallbackTimeout = (expirationTime (objects s2 task) \<le> currentTime);
              s3 = s2\<lparr>invocations := invocations s2 @ [(task, didUserCallbackTimeout)]\<rparr>
          in case invoke cb didUserCallbackTimeout of
               Throw cs \<Rightarrow> (Inl CallbackError, runCalls cs s3)
             | Return cs continuationCallback \<Rightarrow>
                 (let s4 = runCalls cs s3;
                      currentTime' = getCurrentTime s4;
                      s5 = (case continuationCallback of
                              Some k \<Rightarrow>
                                s4\<lparr>objects := (objects s4)(task := (objects s4 task)\<lparr>callback := Some k\<rparr>)\<rparr>
                            | None \<Rightarrow>
                                if Some task = peek (objects s4) (taskQueue s4)
                                then s4\<lparr>taskQueue := pop (objects s4) (taskQueue s4)\<rparr>
                                else s4);
                      s6 = advanceTimers currentTime' s5
                  in (Inr currentTime', s6\<lparr>currentTask := peek (objects s6) (taskQueue s6)\<rparr>)))
     | None \<Rightarrow>
         (let s1 = s\<lparr>taskQueue := pop (objects s) (taskQueue s)\<rparr>
          in (Inr currentTime, s1\<lparr>currentTask := peek (objects s1) (taskQueue s1)\<rparr>)))"

text \<open>
  The weight of a callback: what it, the callbacks it schedules and its continuations can
  still run. The weight of a scheduler counts the tasks in the two queues and the weights
  of their callbacks, and of the callbacks of the tasks \<open>X\<close>. Every iteration of the work
  loop makes it smaller.
\<close>

primrec cbWeight :: "callback \<Rightarrow> nat"
  and behaviourWeight :: "behaviour \<Rightarrow> nat"
  and callWeight :: "call \<Rightarrow> nat" where
  "cbWeight (Callback a b) = Suc (behaviourWeight a + behaviourWeight b)"
| "behaviourWeight (Return cs k) =
     sum_list (map callWeight cs) + (case map_option cbWeight k of None \<Rightarrow> 0 | Some n \<Rightarrow> n)"
| "behaviourWeight (Throw cs) = sum_list (map callWeight cs)"
| "callWeight (Busy ms) = 0"
| "callWeight (ScheduleCall level cb opts) = Suc (cbWeight cb)"
| "callWeight (CancelCall task) = 0"
| "callWeight PauseCall = 0"
| "callWeight ContinueCall = 0"

definition callbackWeight :: "callback option \<Rightarrow> nat" where
  "callbackWeight c = (case c of None \<Rightarrow> 0 | Some cb \<Rightarrow> cbWeight cb)"

definition storeWeight :: "TaskRef set \<Rightarrow> Scheduler \<Rightarrow> nat" where
  "storeWeight X s =
     (\<Sum>r \<in> set (taskQueue s) \<union> set (timerQueue s) \<union> X. callbackWeight (callback (objects s r)))
     + length (taskQueue s) + length (timerQueue s)"







lemma storeWeight_currentTask [simp]: "storeWeight X (s\<lparr>currentTask := x\<rparr>) = storeWeight X s"
  by (simp add: storeWeight_def)




















text \<open>
  The state in which \<open>workLoop\<close> enters its loop, and the states in which an invocation
  \<open>workLoop(hasTimeRemaining, initialTime)\<close> that started in the state \<open>s0\<close> tests the
  condition of its loop, each with the value of the local variable \<open>currentTime\<close> there: the
  state at the entry, and the state after each iteration that ran to its end.
\<close>

definition workLoop_entry :: "int \<Rightarrow> Scheduler \<Rightarrow> Scheduler" where
  "workLoop_entry initialTime s =
    (let s1 = advanceTimers initialTime s
     in s1\<lparr>currentTask := peek (objects s1) (taskQueue s1)\<rparr>)"

inductive workLoop_reaches :: "bool \<Rightarrow> int \<Rightarrow> Scheduler \<Rightarrow> int \<Rightarrow> Scheduler \<Rightarrow> bool"
  for hasTimeRemaining :: bool and initialTime :: int and s0 :: Scheduler where
  entry:
    "workLoop_reaches hasTimeRemaining initialTime s0 initialTime (workLoop_entry initialTime s0)"
| iteration:
    "workLoop_reaches hasTimeRemaining initialTime s0 currentTime s \<Longrightarrow>
     currentTask s = Some task \<Longrightarrow>
     \<not> (enableSchedulerDebugging s \<and> isSchedulerPaused s) \<Longrightarrow>
     \<not> (expirationTime (objects s task) > currentTime
         \<and> (\<not> hasTimeRemaining \<or> shouldYieldToHost s)) \<Longrightarrow>
     workLoop_body currentTime task s = (Inr currentTime', s') \<Longrightarrow>
     workLoop_reaches hasTimeRemaining initialTime s0 currentTime' s'"

subsection \<open>The scheduler's interface: priorities\<close>

text \<open>
  \<open>unstable_runWithPriority\<close>. The event handler is any function: it may change the
  scheduler's state, and it returns a value or throws (\<open>Inl\<close>). The \<open>finally\<close> block runs in
  both cases.
\<close>

definition unstable_runWithPriority ::
  "int \<Rightarrow> (Scheduler \<Rightarrow> ('e + 'a) \<times> Scheduler) \<Rightarrow> Scheduler \<Rightarrow> ('e + 'a) \<times> Scheduler" where
  "unstable_runWithPriority level eventHandler s =
    (let level' =
           (if level = ImmediatePriority \<or> level = UserBlockingPriority
               \<or> level = NormalPriority \<or> level = LowPriority \<or> level = IdlePriority
            then level else NormalPriority);
         previousPriorityLevel = currentPriorityLevel s;
         (result, s') = eventHandler (s\<lparr>currentPriorityLevel := level'\<rparr>)
     in (result, s'\<lparr>currentPriorityLevel := previousPriorityLevel\<rparr>))"

definition unstable_getCurrentPriorityLevel :: "Scheduler \<Rightarrow> int" where
  "unstable_getCurrentPriorityLevel s = currentPriorityLevel s"




text \<open>A scheduler as the module initialises it, with the clock at 0.\<close>

definition noTask :: Task where
  "noTask = \<lparr>taskId = 0, callback = None, priorityLevel = NoPriority, startTime = 0,
     expirationTime = 0, sortIndex = 0\<rparr>"

definition initialScheduler :: Scheduler where
  "initialScheduler = \<lparr>objects = (\<lambda>r. noTask), taskQueue = [], timerQueue = [],
     taskIdCounter = 1, enableSchedulerDebugging = False, isSchedulerPaused = False,
     currentTask = None, currentPriorityLevel = NormalPriority, isPerformingWork = False,
     isHostCallbackScheduled = False, isHostTimeoutScheduled = False, hostTime = 0,
     deadline = 0, scheduledHostCallback = False, taskTimeout = None, invocations = []\<rparr>"

text \<open>
  The timeout and the start time that \<open>unstable_scheduleCallback\<close> computes, as functions
  of its arguments.
\<close>

definition timeoutOf :: "int \<Rightarrow> int" where
  "timeoutOf level =
     (if level = ImmediatePriority then IMMEDIATE_PRIORITY_TIMEOUT
      else if level = UserBlockingPriority then USER_BLOCKING_PRIORITY_TIMEOUT
      else if level = IdlePriority then IDLE_PRIORITY_TIMEOUT
      else if level = LowPriority then LOW_PRIORITY_TIMEOUT
      else NORMAL_PRIORITY_TIMEOUT)"

definition startOf :: "options \<Rightarrow> Scheduler \<Rightarrow> int" where
  "startOf opts s =
     (case opts of
        Options (Some delay) \<Rightarrow> if delay > 0 then getCurrentTime s + delay else getCurrentTime s
      | Options None \<Rightarrow> getCurrentTime s
      | NoOptions \<Rightarrow> getCurrentTime s)"



text \<open>
  Example callbacks and schedulers. \<open>noopTask\<close> does nothing and returns no continuation;
  \<open>busyTask\<close> takes 10 ms and returns a continuation; \<open>twoStepTask\<close> takes 1 ms and returns
  \<open>busyTask\<close> as its continuation; \<open>quickTask\<close> takes 1 ms and returns a
  continuation that takes 1 ms and finishes; \<open>schedulingTask\<close> takes 10 ms, schedules a
  task at UserBlocking priority and returns a continuation. \<open>oneTaskScheduler\<close> is the
  initial scheduler with the deadline of the slice set and one task scheduled at Normal
  priority.
\<close>

definition noopTask :: callback where
  "noopTask = Callback (Return [] None) (Return [] None)"






section \<open>Properties of the lane registers\<close>

lemma bit_clear_top:
  assumes "js_positive lanes"
  shows "bit (lanes AND NOT (js_shl 1 (pickArbitraryLaneIndex lanes))) j
         \<longleftrightarrow> bit lanes j \<and> j \<noteq> topBit lanes"
proof -
  from assms have nz: "lanes \<noteq> 0" by (simp add: js_positive_iff)
  have "topBit lanes < 32" using topBit_lt[OF assms] by simp
  then show ?thesis
    using bit_imp_le_length[of lanes j]
    by (auto simp: pickArbitraryLaneIndex_topBit[OF nz] js_shl_1_nat bit_simps bit_laneAt)
qed

lemma laneAt_nonzero: "i < 32 \<Longrightarrow> laneAt i \<noteq> 0"
  using bit_laneAt[of i i] by (auto simp del: bit_laneAt)

lemma topBit_laneAt: "i < 32 \<Longrightarrow> topBit (laneAt i) = i"
  using topBit_props(2)[OF laneAt_nonzero, of i] by (simp add: bit_laneAt)

lemma laneToIndex_laneAt: "i < 32 \<Longrightarrow> laneToIndex (laneAt i) = int i"
  by (simp add: laneToIndex_def pickArbitraryLaneIndex_topBit laneAt_nonzero topBit_laneAt)

lemma bit_laneAt_minus_1: "bit (laneAt i - 1) j \<longleftrightarrow> j < i \<and> j < 32"
proof -
  have "laneAt i - 1 = (mask i :: 32 word)" by (simp add: laneAt_def mask_eq_exp_minus_1)
  then show ?thesis by (auto simp: bit_simps)
qed

subsection \<open>markRootUpdated\<close>

text \<open>
  C1 (as amended). For every root and every single update lane \<open>laneAt i\<close> (\<open>i < 31\<close>),
  \<open>markRootUpdated\<close> adds the lane to \<open>pendingLanes\<close>, records \<open>eventTime\<close> at the lane's
  index in \<open>eventTimes\<close>, and clears the suspended and pinged status of the lane itself and
  of every lane of lower priority (every bit position \<open>j \<ge> i\<close>). The lanes of strictly
  higher priority (\<open>j < i\<close>) keep the suspended and pinged status they had.
\<close>

theorem markRootUpdated_unsuspends_equal_or_lower:
  assumes "i < 31"
  shows "pendingLanes (markRootUpdated root (laneAt i) eventTime) = pendingLanes root OR laneAt i
    \<and> isSubsetOfLanes (pendingLanes (markRootUpdated root (laneAt i) eventTime)) (laneAt i)
    \<and> eventTimes (markRootUpdated root (laneAt i) eventTime) (int i) = Some eventTime
    \<and> (\<forall>j. i \<le> j \<longrightarrow>
          \<not> bit (suspendedLanes (markRootUpdated root (laneAt i) eventTime)) j
        \<and> \<not> bit (pingedLanes (markRootUpdated root (laneAt i) eventTime)) j)
    \<and> (\<forall>j<i.
          bit (suspendedLanes (markRootUpdated root (laneAt i) eventTime)) j
            = bit (suspendedLanes root) j
        \<and> bit (pingedLanes (markRootUpdated root (laneAt i) eventTime)) j
            = bit (pingedLanes root) j)"
  using assms
  by (simp add: markRootUpdated_def Let_def laneToIndex_laneAt isSubsetOfLanes_def
      bit_simps bit_laneAt_minus_1)

text \<open>
  The amended statement at the update lane \<open>SyncBatchedLane\<close> (bit 1) of a root whose
  \<open>SyncLane\<close> and \<open>InputDiscreteHydrationLane\<close> are pending and suspended: the lower-priority lane
  (bit 2) is unsuspended, the higher-priority \<open>SyncLane\<close> (bit 0) stays suspended.
\<close>

theorem markRootUpdated_unsuspends_witness:
  "(1::nat) < 31
   \<and> eventTimes (markRootUpdated (emptyRoot\<lparr>pendingLanes := 5, suspendedLanes := 5\<rparr>)
        (laneAt 1) 100) 1 = Some 100
   \<and> \<not> bit (suspendedLanes (markRootUpdated (emptyRoot\<lparr>pendingLanes := 5, suspendedLanes := 5\<rparr>)
        (laneAt 1) 100)) 2
   \<and> bit (suspendedLanes (markRootUpdated (emptyRoot\<lparr>pendingLanes := 5, suspendedLanes := 5\<rparr>)
        (laneAt 1) 100)) 0"
  using markRootUpdated_unsuspends_equal_or_lower
    [of 1 "emptyRoot\<lparr>pendingLanes := 5, suspendedLanes := 5\<rparr>" 100]
  by (simp add: emptyRoot_def)

text \<open>
  C1 as stated fails: after an update on \<open>SyncBatchedLane\<close>, the suspended \<open>SyncLane\<close>,
  which is of higher priority, is still suspended.
\<close>

theorem markRootUpdated_keeps_higher_priority_suspended:
  "suspendedLanes
     (markRootUpdated (emptyRoot\<lparr>pendingLanes := SyncLane, suspendedLanes := SyncLane\<rparr>)
        SyncBatchedLane 100)
     AND getEqualOrHigherPriorityLanes SyncBatchedLane \<noteq> NoLanes"
  by code_simp

subsection \<open>What each loop computes\<close>

lemma validLanes_clear: "validLanes lanes \<Longrightarrow> validLanes (lanes AND NOT x)"
  by (simp add: validLanes_def bit_simps)

lemma not_positive_valid: "\<not> js_positive lanes \<Longrightarrow> validLanes lanes \<Longrightarrow> lanes = 0"
  by (simp add: js_positive_iff validLanes_def)

lemma markRootEntangled_loop_get:
  "validLanes lanes \<Longrightarrow>
   markRootEntangled_loop entangled lanes entangl k =
     (if 0 \<le> k \<and> bit lanes (nat k) then Some (laneMapGet entangl k OR entangled) else entangl k)"
proof (induction entangled lanes entangl rule: markRootEntangled_loop.induct)
  case (1 entangled lanes entangl)
  show ?case
  proof (cases "js_positive lanes")
    case False
    with "1.prems" have "lanes = 0" by (simp add: not_positive_valid)
    then show ?thesis by (subst markRootEntangled_loop.simps) (simp add: js_positive_iff)
  next
    case True
    then have nz: "lanes \<noteq> 0" by (simp add: js_positive_iff)
    let ?index = "pickArbitraryLaneIndex lanes"
    let ?lane = "js_shl 1 ?index"
    have idx: "?index = int (topBit lanes)" by (rule pickArbitraryLaneIndex_topBit[OF nz])
    have top: "bit lanes (topBit lanes)" by (rule topBit_props(2)[OF nz])
    have IH: "markRootEntangled_loop entangled (lanes AND NOT ?lane)
          (entangl(?index \<mapsto> laneMapGet entangl ?index OR entangled)) k =
        (if 0 \<le> k \<and> bit (lanes AND NOT ?lane) (nat k)
         then Some (laneMapGet (entangl(?index \<mapsto> laneMapGet entangl ?index OR entangled)) k OR entangled)
         else (entangl(?index \<mapsto> laneMapGet entangl ?index OR entangled)) k)"
      by (rule "1.IH"[OF True refl refl validLanes_clear[OF "1.prems"]])
    have "markRootEntangled_loop entangled lanes entangl k =
       markRootEntangled_loop entangled (lanes AND NOT ?lane)
          (entangl(?index \<mapsto> laneMapGet entangl ?index OR entangled)) k"
      using True by (subst markRootEntangled_loop.simps) (simp add: Let_def)
    also note IH
    finally have "markRootEntangled_loop entangled lanes entangl k =
        (if 0 \<le> k \<and> bit lanes (nat k) \<and> nat k \<noteq> topBit lanes
         then Some (laneMapGet (entangl(?index \<mapsto> laneMapGet entangl ?index OR entangled)) k OR entangled)
         else (entangl(?index \<mapsto> laneMapGet entangl ?index OR entangled)) k)"
      by (simp only: bit_clear_top[OF True])
    then show ?thesis
      using top by (auto simp: idx laneMapGet_def nat_eq_iff)
  qed
qed

lemma markRootFinished_loop_get:
  "validLanes lanes \<Longrightarrow>
   markRootFinished_loop lanes (entangl, eventT, expirationT) =
     (\<lambda>k. if 0 \<le> k \<and> bit lanes (nat k) then Some NoLanes else entangl k,
      \<lambda>k. if 0 \<le> k \<and> bit lanes (nat k) then Some NoTimestamp else eventT k,
      \<lambda>k. if 0 \<le> k \<and> bit lanes (nat k) then Some NoTimestamp else expirationT k)"
proof (induction lanes "(entangl, eventT, expirationT)" arbitrary: entangl eventT expirationT
    rule: markRootFinished_loop.induct)
  case (1 lanes entangl eventT expirationT)
  show ?case
  proof (cases "js_positive lanes")
    case False
    with "1.prems" have "lanes = 0" by (simp add: not_positive_valid)
    then show ?thesis by (subst markRootFinished_loop.simps) (simp add: js_positive_iff)
  next
    case True
    then have nz: "lanes \<noteq> 0" by (simp add: js_positive_iff)
    let ?index = "pickArbitraryLaneIndex lanes"
    let ?lane = "js_shl 1 ?index"
    have idx: "?index = int (topBit lanes)" by (rule pickArbitraryLaneIndex_topBit[OF nz])
    have top: "bit lanes (topBit lanes)" by (rule topBit_props(2)[OF nz])
    note IH = "1.hyps"[OF True refl refl validLanes_clear[OF "1.prems"]]
    have "markRootFinished_loop lanes (entangl, eventT, expirationT) =
       markRootFinished_loop (lanes AND NOT ?lane)
         (entangl(?index \<mapsto> NoLanes), eventT(?index \<mapsto> NoTimestamp),
          expirationT(?index \<mapsto> NoTimestamp))"
      using True by (subst markRootFinished_loop.simps) (simp add: Let_def)
    also note IH
    finally have "markRootFinished_loop lanes (entangl, eventT, expirationT) =
       (\<lambda>k. if 0 \<le> k \<and> bit lanes (nat k) \<and> nat k \<noteq> topBit lanes then Some NoLanes
           else (entangl(?index \<mapsto> NoLanes)) k,
        \<lambda>k. if 0 \<le> k \<and> bit lanes (nat k) \<and> nat k \<noteq> topBit lanes then Some NoTimestamp
           else (eventT(?index \<mapsto> NoTimestamp)) k,
        \<lambda>k. if 0 \<le> k \<and> bit lanes (nat k) \<and> nat k \<noteq> topBit lanes then Some NoTimestamp
           else (expirationT(?index \<mapsto> NoTimestamp)) k)"
      by (simp only: bit_clear_top[OF True])
    then show ?thesis
      using top by (auto simp: idx nat_eq_iff fun_eq_iff)
  qed
qed


lemma markRootFinished_eq:
  assumes "validLanes (pendingLanes root)"
  shows "markRootFinished root remainingLanes =
    root\<lparr>pendingLanes := remainingLanes,
         suspendedLanes := 0,
         pingedLanes := 0,
         expiredLanes := expiredLanes root AND remainingLanes,
         mutableReadLanes := mutableReadLanes root AND remainingLanes,
         entangledLanes := entangledLanes root AND remainingLanes,
         entanglements := (\<lambda>k. if 0 \<le> k \<and> bit (pendingLanes root AND NOT remainingLanes) (nat k)
            then Some NoLanes else entanglements root k),
         eventTimes := (\<lambda>k. if 0 \<le> k \<and> bit (pendingLanes root AND NOT remainingLanes) (nat k)
            then Some NoTimestamp else eventTimes root k),
         expirationTimes := (\<lambda>k. if 0 \<le> k \<and> bit (pendingLanes root AND NOT remainingLanes) (nat k)
            then Some NoTimestamp else expirationTimes root k)\<rparr>"
proof -
  have v: "validLanes (pendingLanes root AND NOT remainingLanes)"
    using assms by (rule validLanes_clear)
  show ?thesis
    by (simp add: markRootFinished_def Let_def markRootFinished_loop_get[OF v])
qed

subsection \<open>markRootEntangled\<close>

text \<open>
  C10. For every root and every lane set \<open>L\<close> (a valid 31-bit lane set), after
  \<open>markRootEntangled root L\<close>: \<open>L\<close> is a subset of \<open>entangledLanes\<close>; for every lane of
  \<open>L\<close> the entry of \<open>entanglements\<close> at the lane's index is a superset of the whole of \<open>L\<close>,
  so it contains the lane itself; and no bit that \<open>entangledLanes\<close> or an entry of
  \<open>entanglements\<close> had before is cleared.
\<close>

theorem markRootEntangled_entangles_all:
  assumes "validLanes L"
  shows "isSubsetOfLanes (entangledLanes (markRootEntangled root L)) L
    \<and> (\<forall>i. bit L i \<longrightarrow>
          (\<exists>e. entanglements (markRootEntangled root L) (int i) = Some e
             \<and> isSubsetOfLanes e L \<and> bit e i))
    \<and> isSubsetOfLanes (entangledLanes (markRootEntangled root L)) (entangledLanes root)
    \<and> (\<forall>k e. entanglements root k = Some e \<longrightarrow>
          (\<exists>e'. entanglements (markRootEntangled root L) k = Some e' \<and> isSubsetOfLanes e' e))"
proof -
  have 1: "isSubsetOfLanes (entangledLanes (markRootEntangled root L)) L"
    by (simp add: markRootEntangled_def isSubsetOfLanes_def word_bw_assocs word_bw_comms
        word_ao_absorbs)
  have 2: "\<exists>e. entanglements (markRootEntangled root L) (int i) = Some e
             \<and> isSubsetOfLanes e L \<and> bit e i" if "bit L i" for i
    using that
    by (simp add: markRootEntangled_def markRootEntangled_loop_get[OF assms] isSubsetOfLanes_def
        bit_simps word_ao_absorbs word_bw_comms)
  have 3: "isSubsetOfLanes (entangledLanes (markRootEntangled root L)) (entangledLanes root)"
    by (simp add: markRootEntangled_def isSubsetOfLanes_def word_ao_absorbs word_bw_comms)
  have 4: "\<exists>e'. entanglements (markRootEntangled root L) k = Some e' \<and> isSubsetOfLanes e' e"
    if "entanglements root k = Some e" for k e
    using that
    by (simp add: markRootEntangled_def markRootEntangled_loop_get[OF assms] isSubsetOfLanes_def
        laneMapGet_def word_ao_absorbs word_bw_comms)
  from 1 2 3 4 show ?thesis by blast
qed

text \<open>The statement at \<open>InputDiscreteLanes\<close> (bits 3 and 4) on the initial root.\<close>

theorem markRootEntangled_witness:
  "validLanes InputDiscreteLanes
   \<and> isSubsetOfLanes (entangledLanes (markRootEntangled emptyRoot InputDiscreteLanes))
        InputDiscreteLanes
   \<and> (\<exists>e. entanglements (markRootEntangled emptyRoot InputDiscreteLanes) (int 3) = Some e
          \<and> isSubsetOfLanes e InputDiscreteLanes \<and> bit e 3)"
proof -
  have v: "validLanes InputDiscreteLanes"
    by (simp add: validLanes_def InputDiscreteLanes_def)
  have b: "bit InputDiscreteLanes 3"
    by (simp add: InputDiscreteLanes_def)
  from markRootEntangled_entangles_all [OF v, of emptyRoot] b v show ?thesis
    by blast
qed


subsection \<open>markRootFinished\<close>

text \<open>
  C9. For every root (with a valid 31-bit \<open>pendingLanes\<close>) and every \<open>remainingLanes\<close>, after
  \<open>markRootFinished root remainingLanes\<close> the registers \<open>suspendedLanes\<close>, \<open>pingedLanes\<close>,
  \<open>expiredLanes\<close>, \<open>entangledLanes\<close> and \<open>mutableReadLanes\<close> are subsets of \<open>pendingLanes\<close>,
  which equals \<open>remainingLanes\<close>; and for every lane that was pending and is not among the
  remaining lanes, its slot in \<open>eventTimes\<close> and \<open>expirationTimes\<close> is \<open>NoTimestamp\<close> and its
  slot in \<open>entanglements\<close> is \<open>NoLanes\<close>.
\<close>

theorem markRootFinished_subsets_and_resets:
  assumes "validLanes (pendingLanes root)"
  shows "pendingLanes (markRootFinished root remainingLanes) = remainingLanes
    \<and> isSubsetOfLanes (pendingLanes (markRootFinished root remainingLanes))
         (suspendedLanes (markRootFinished root remainingLanes))
    \<and> isSubsetOfLanes (pendingLanes (markRootFinished root remainingLanes))
         (pingedLanes (markRootFinished root remainingLanes))
    \<and> isSubsetOfLanes (pendingLanes (markRootFinished root remainingLanes))
         (expiredLanes (markRootFinished root remainingLanes))
    \<and> isSubsetOfLanes (pendingLanes (markRootFinished root remainingLanes))
         (entangledLanes (markRootFinished root remainingLanes))
    \<and> isSubsetOfLanes (pendingLanes (markRootFinished root remainingLanes))
         (mutableReadLanes (markRootFinished root remainingLanes))
    \<and> (\<forall>i. bit (pendingLanes root) i \<and> \<not> bit remainingLanes i \<longrightarrow>
          eventTimes (markRootFinished root remainingLanes) (int i) = Some NoTimestamp
        \<and> expirationTimes (markRootFinished root remainingLanes) (int i) = Some NoTimestamp
        \<and> entanglements (markRootFinished root remainingLanes) (int i) = Some NoLanes)"
proof -
  have regs: "pendingLanes (markRootFinished root remainingLanes) = remainingLanes
    \<and> isSubsetOfLanes (pendingLanes (markRootFinished root remainingLanes))
         (suspendedLanes (markRootFinished root remainingLanes))
    \<and> isSubsetOfLanes (pendingLanes (markRootFinished root remainingLanes))
         (pingedLanes (markRootFinished root remainingLanes))
    \<and> isSubsetOfLanes (pendingLanes (markRootFinished root remainingLanes))
         (expiredLanes (markRootFinished root remainingLanes))
    \<and> isSubsetOfLanes (pendingLanes (markRootFinished root remainingLanes))
         (entangledLanes (markRootFinished root remainingLanes))
    \<and> isSubsetOfLanes (pendingLanes (markRootFinished root remainingLanes))
         (mutableReadLanes (markRootFinished root remainingLanes))"
    by (simp add: markRootFinished_eq[OF assms] isSubsetOfLanes_def
        word_bw_assocs word_bw_comms word_bw_lcs)
  have tables: "eventTimes (markRootFinished root remainingLanes) (int i) = Some NoTimestamp
        \<and> expirationTimes (markRootFinished root remainingLanes) (int i) = Some NoTimestamp
        \<and> entanglements (markRootFinished root remainingLanes) (int i) = Some NoLanes"
    if "bit (pendingLanes root) i" "\<not> bit remainingLanes i" for i
    using that bit_imp_le_length[OF that(1)]
    by (simp add: markRootFinished_eq[OF assms] bit_simps)
  from regs tables show ?thesis by blast
qed



text \<open>
  The statement on a root with lanes 0 and 1 pending and lane 1 suspended, finishing with
  lane 0 remaining.
\<close>

theorem markRootFinished_witness:
  "validLanes (pendingLanes (emptyRoot\<lparr>pendingLanes := 3, suspendedLanes := 2\<rparr>))
   \<and> pendingLanes (markRootFinished (emptyRoot\<lparr>pendingLanes := 3, suspendedLanes := 2\<rparr>) 1) = 1
   \<and> isSubsetOfLanes (pendingLanes (markRootFinished (emptyRoot\<lparr>pendingLanes := 3, suspendedLanes := 2\<rparr>) 1))
        (suspendedLanes (markRootFinished (emptyRoot\<lparr>pendingLanes := 3, suspendedLanes := 2\<rparr>) 1))
   \<and> eventTimes (markRootFinished (emptyRoot\<lparr>pendingLanes := 3, suspendedLanes := 2\<rparr>) 1) (int 1)
        = Some NoTimestamp"
proof -
  have v: "validLanes (pendingLanes (emptyRoot\<lparr>pendingLanes := 3, suspendedLanes := 2\<rparr>))"
    by (simp add: validLanes_def)
  have b: "bit (pendingLanes (emptyRoot\<lparr>pendingLanes := 3, suspendedLanes := 2\<rparr>)) 1
      \<and> \<not> bit (1 :: Lanes) 1"
    by simp
  from markRootFinished_subsets_and_resets [OF v, of 1] b v show ?thesis
    by blast
qed

subsection \<open>markStarvedLanesAsExpired\<close>

lemma laneAt_and_eq_0: "laneAt i AND w = 0 \<longleftrightarrow> \<not> bit w i"
proof
  assume "laneAt i AND w = 0"
  then have "\<not> bit (laneAt i AND w) i" by simp
  then show "\<not> bit w i" using bit_imp_le_length[of w i] by (auto simp: bit_simps bit_laneAt)
next
  assume "\<not> bit w i"
  then show "laneAt i AND w = 0"
    by (intro bit_word_eqI) (auto simp: bit_simps bit_laneAt)
qed

lemma markStarvedLanesAsExpired_loop_spec:
  "validLanes lanes \<Longrightarrow>
   (\<forall>k. expirationTimes (markStarvedLanesAsExpired_loop suspended pinged currentTime lanes root) k =
      (if 0 \<le> k \<and> bit lanes (nat k) \<and> expirationTimes root k = Some NoTimestamp
          \<and> (\<not> bit suspended (nat k) \<or> bit pinged (nat k))
       then Some (computeExpirationTime (laneAt (nat k)) currentTime)
       else expirationTimes root k))
   \<and> (\<forall>j. bit (expiredLanes (markStarvedLanesAsExpired_loop suspended pinged currentTime lanes root)) j
        \<longleftrightarrow> bit (expiredLanes root) j
           \<or> (bit lanes j \<and> expirationTimes root (int j) \<noteq> Some NoTimestamp
              \<and> js_le_time (expirationTimes root (int j)) currentTime))"
proof (induction suspended pinged currentTime lanes root
    rule: markStarvedLanesAsExpired_loop.induct)
  case (1 suspended pinged currentTime lanes root)
  show ?case
  proof (cases "js_positive lanes")
    case False
    with "1.prems" have "lanes = 0" by (simp add: not_positive_valid)
    then show ?thesis
      by (subst (1 2) markStarvedLanesAsExpired_loop.simps) (simp add: js_positive_iff)
  next
    case True
    then have nz: "lanes \<noteq> 0" by (simp add: js_positive_iff)
    let ?index = "pickArbitraryLaneIndex lanes"
    let ?lane = "js_shl 1 ?index"
    let ?top = "topBit lanes"
    have idx: "?index = int ?top" by (rule pickArbitraryLaneIndex_topBit[OF nz])
    have top: "bit lanes ?top" by (rule topBit_props(2)[OF nz])
    have top32: "?top < 32" using topBit_lt[OF True] by simp
    have lane: "?lane = laneAt ?top" by (simp add: idx js_shl_1_nat top32)
    define root1 where "root1 =
      (if expirationTimes root ?index = Some NoTimestamp then
         (if ?lane AND suspended = NoLanes \<or> ?lane AND pinged \<noteq> NoLanes
          then root\<lparr>expirationTimes :=
                 (expirationTimes root)(?index \<mapsto> computeExpirationTime ?lane currentTime)\<rparr>
          else root)
       else if js_le_time (expirationTimes root ?index) currentTime
         then root\<lparr>expiredLanes := expiredLanes root OR ?lane\<rparr>
       else root)"
    have unfold: "markStarvedLanesAsExpired_loop suspended pinged currentTime lanes root =
        markStarvedLanesAsExpired_loop suspended pinged currentTime (lanes AND NOT ?lane) root1"
      using True by (subst markStarvedLanesAsExpired_loop.simps) (simp add: Let_def root1_def)
    have IH: "(\<forall>k. expirationTimes (markStarvedLanesAsExpired_loop suspended pinged currentTime (lanes AND NOT ?lane) root1) k =
      (if 0 \<le> k \<and> bit (lanes AND NOT ?lane) (nat k) \<and> expirationTimes root1 k = Some NoTimestamp
          \<and> (\<not> bit suspended (nat k) \<or> bit pinged (nat k))
       then Some (computeExpirationTime (laneAt (nat k)) currentTime)
       else expirationTimes root1 k))
   \<and> (\<forall>j. bit (expiredLanes (markStarvedLanesAsExpired_loop suspended pinged currentTime (lanes AND NOT ?lane) root1)) j
        \<longleftrightarrow> bit (expiredLanes root1) j
           \<or> (bit (lanes AND NOT ?lane) j \<and> expirationTimes root1 (int j) \<noteq> Some NoTimestamp
              \<and> js_le_time (expirationTimes root1 (int j)) currentTime))"
      unfolding root1_def
      by (rule "1.IH"[OF True refl refl refl validLanes_clear[OF "1.prems"]])
    note IHa = IH[THEN conjunct1, rule_format]
    note IHb = IH[THEN conjunct2, rule_format]
    have exp1: "expirationTimes root1 k =
        (if k = int ?top \<and> expirationTimes root k = Some NoTimestamp
            \<and> (\<not> bit suspended ?top \<or> bit pinged ?top)
         then Some (computeExpirationTime (laneAt ?top) currentTime)
         else expirationTimes root k)" for k
      by (auto simp: root1_def idx js_shl_1_nat[OF top32] laneAt_and_eq_0 NoLanes_def)
    have expd1: "bit (expiredLanes root1) j \<longleftrightarrow>
        bit (expiredLanes root) j
        \<or> (j = ?top \<and> expirationTimes root (int ?top) \<noteq> Some NoTimestamp
            \<and> js_le_time (expirationTimes root (int ?top)) currentTime)" for j
      using top32 by (auto simp: root1_def idx js_shl_1_nat[OF top32] bit_simps bit_laneAt)
    have bc: "bit (lanes AND NOT ?lane) j \<longleftrightarrow> bit lanes j \<and> j \<noteq> ?top" for j
      by (rule bit_clear_top[OF True])
    have A: "expirationTimes (markStarvedLanesAsExpired_loop suspended pinged currentTime lanes root) k =
      (if 0 \<le> k \<and> bit lanes (nat k) \<and> expirationTimes root k = Some NoTimestamp
          \<and> (\<not> bit suspended (nat k) \<or> bit pinged (nat k))
       then Some (computeExpirationTime (laneAt (nat k)) currentTime)
       else expirationTimes root k)" for k
    proof (cases "k = int ?top")
      case True
      then show ?thesis using top by (auto simp: unfold IHa bc exp1)
    next
      case False
      then have "0 \<le> k \<Longrightarrow> nat k \<noteq> ?top" by auto
      then show ?thesis using False by (auto simp: unfold IHa bc exp1)
    qed
    have B: "bit (expiredLanes (markStarvedLanesAsExpired_loop suspended pinged currentTime lanes root)) j
        \<longleftrightarrow> bit (expiredLanes root) j
           \<or> (bit lanes j \<and> expirationTimes root (int j) \<noteq> Some NoTimestamp
              \<and> js_le_time (expirationTimes root (int j)) currentTime)" for j
    proof (cases "j = ?top")
      case True
      then show ?thesis using top by (auto simp: unfold IHb bc expd1)
    next
      case False
      then show ?thesis by (auto simp: unfold IHb bc expd1 exp1)
    qed
    from A B show ?thesis by blast
  qed
qed

text \<open>The priority of each single lane, by its bit position.\<close>

lemma priority_of_laneAt:
  "\<forall>i \<in> set [0..<31]. snd (getHighestPriorityLanes (laneAt i)) =
     (if i = 0 then 15 else if i = 1 then 14 else if i = 2 then 13 else if i \<le> 4 then 12
      else if i = 5 then 11 else if i \<le> 7 then 10 else if i = 8 then 9 else if i \<le> 11 then 8
      else if i = 12 then 7 else if i \<le> 21 then 6 else if i \<le> 25 then 5 else if i = 26 then 4
      else if i = 27 then 3 else if i \<le> 29 then 2 else 1)"
  by code_simp



lemma computeExpirationTime_laneAt:
  assumes "i < 31"
  shows "computeExpirationTime (laneAt i) currentTime =
    (if i \<le> 7 then currentTime + 250 else if i \<le> 21 then currentTime + 5000 else NoTimestamp)"
proof -
  from assms have "i \<in> set [0..<31]" by simp
  with priority_of_laneAt have p: "snd (getHighestPriorityLanes (laneAt i)) =
     (if i = 0 then 15 else if i = 1 then 14 else if i = 2 then 13 else if i \<le> 4 then 12
      else if i = 5 then 11 else if i \<le> 7 then 10 else if i = 8 then 9 else if i \<le> 11 then 8
      else if i = 12 then 7 else if i \<le> 21 then 6 else if i \<le> 25 then 5 else if i = 26 then 4
      else if i = 27 then 3 else if i \<le> 29 then 2 else 1)"
    by blast
  show ?thesis
    unfolding computeExpirationTime_def Let_def p
    by (simp add: InputContinuousLanePriority_def TransitionPriority_def)
qed

text \<open>
  C8. For every root (with a valid 31-bit \<open>pendingLanes\<close>) and current time,
  \<open>markStarvedLanesAsExpired\<close> assigns to each pending lane whose slot in \<open>expirationTimes\<close>
  is \<open>NoTimestamp\<close> and that is not suspended, or is pinged, an expiration time by its
  priority: \<open>currentTime + 250\<close> from \<open>InputContinuousLanePriority\<close> up (bits 0 to 7),
  \<open>currentTime + 5000\<close> from \<open>TransitionPriority\<close> up (bits 8 to 21: the default and the
  transition lanes with their hydration lanes), and \<open>NoTimestamp\<close>, never expiring, below
  (bits 22 to 30: the retry, selective hydration, idle and offscreen lanes). And the lanes
  of \<open>expiredLanes\<close> afterwards are those it had before together with every pending lane
  whose recorded expiration time is at most \<open>currentTime\<close>.
\<close>

theorem markStarvedLanesAsExpired_assigns_and_expires:
  assumes "validLanes (pendingLanes root)"
  shows "(\<forall>i. bit (pendingLanes root) i \<and> expirationTimes root (int i) = Some NoTimestamp
            \<and> (\<not> bit (suspendedLanes root) i \<or> bit (pingedLanes root) i) \<longrightarrow>
          expirationTimes (markStarvedLanesAsExpired root currentTime) (int i) =
            Some (if InputContinuousLanePriority \<le> snd (getHighestPriorityLanes (laneAt i))
                    then currentTime + 250
                  else if TransitionPriority \<le> snd (getHighestPriorityLanes (laneAt i))
                    then currentTime + 5000
                  else NoTimestamp)
        \<and> expirationTimes (markStarvedLanesAsExpired root currentTime) (int i) =
            Some (if i \<le> 7 then currentTime + 250
                  else if i \<le> 21 then currentTime + 5000
                  else NoTimestamp))
    \<and> (\<forall>i. bit (expiredLanes (markStarvedLanesAsExpired root currentTime)) i \<longleftrightarrow>
          bit (expiredLanes root) i
          \<or> (bit (pendingLanes root) i
             \<and> (\<exists>e. expirationTimes root (int i) = Some e \<and> e \<noteq> NoTimestamp
                   \<and> e \<le> currentTime)))"
proof -
  note spec = markStarvedLanesAsExpired_loop_spec[OF assms,
      of "suspendedLanes root" "pingedLanes root" currentTime root,
      folded markStarvedLanesAsExpired_def]
  have A: "expirationTimes (markStarvedLanesAsExpired root currentTime) (int i) =
            Some (if InputContinuousLanePriority \<le> snd (getHighestPriorityLanes (laneAt i))
                    then currentTime + 250
                  else if TransitionPriority \<le> snd (getHighestPriorityLanes (laneAt i))
                    then currentTime + 5000
                  else NoTimestamp)
        \<and> expirationTimes (markStarvedLanesAsExpired root currentTime) (int i) =
            Some (if i \<le> 7 then currentTime + 250
                  else if i \<le> 21 then currentTime + 5000
                  else NoTimestamp)"
    if h: "bit (pendingLanes root) i" "expirationTimes root (int i) = Some NoTimestamp"
      "\<not> bit (suspendedLanes root) i \<or> bit (pingedLanes root) i" for i
  proof -
    have "i < 32" using bit_imp_le_length[OF h(1)] by simp
    moreover have "i \<noteq> 31" using h(1) assms by (auto simp: validLanes_def)
    ultimately have i31: "i < 31" by simp
    have e: "expirationTimes (markStarvedLanesAsExpired root currentTime) (int i) =
        Some (computeExpirationTime (laneAt i) currentTime)"
      using h by (simp add: spec[THEN conjunct1, rule_format])
    show ?thesis
    proof
      show "expirationTimes (markStarvedLanesAsExpired root currentTime) (int i) =
            Some (if InputContinuousLanePriority \<le> snd (getHighestPriorityLanes (laneAt i))
                    then currentTime + 250
                  else if TransitionPriority \<le> snd (getHighestPriorityLanes (laneAt i))
                    then currentTime + 5000
                  else NoTimestamp)"
        unfolding e by (simp add: computeExpirationTime_def Let_def)
      show "expirationTimes (markStarvedLanesAsExpired root currentTime) (int i) =
            Some (if i \<le> 7 then currentTime + 250
                  else if i \<le> 21 then currentTime + 5000
                  else NoTimestamp)"
        unfolding e computeExpirationTime_laneAt[OF i31] ..
    qed
  qed
  have B: "bit (expiredLanes (markStarvedLanesAsExpired root currentTime)) i \<longleftrightarrow>
          bit (expiredLanes root) i
          \<or> (bit (pendingLanes root) i
             \<and> (\<exists>e. expirationTimes root (int i) = Some e \<and> e \<noteq> NoTimestamp
                   \<and> e \<le> currentTime))" for i
    by (cases "expirationTimes root (int i)")
      (auto simp: spec[THEN conjunct2, rule_format] js_le_time_def)
  from A B show ?thesis by blast
qed


text \<open>
  The statement on a root with the sync lane pending since time 40 and a default lane
  (bit 9) pending without expiration time, at time 100.
\<close>

theorem markStarvedLanesAsExpired_witness:
  "validLanes (pendingLanes starvedRoot)
   \<and> expirationTimes (markStarvedLanesAsExpired starvedRoot 100) (int 9) = Some 5100
   \<and> bit (expiredLanes (markStarvedLanesAsExpired starvedRoot 100)) 0"
proof -
  have v: "validLanes (pendingLanes starvedRoot)"
    by (simp add: starvedRoot_def validLanes_def)
  have h9: "bit (pendingLanes starvedRoot) 9
      \<and> expirationTimes starvedRoot (int 9) = Some NoTimestamp
      \<and> (\<not> bit (suspendedLanes starvedRoot) 9 \<or> bit (pingedLanes starvedRoot) 9)"
    by (simp add: starvedRoot_def emptyRoot_def createLaneMap_def TotalLanes_def NoLanes_def)
  have h0: "bit (pendingLanes starvedRoot) 0
      \<and> (\<exists>e. expirationTimes starvedRoot (int 0) = Some e \<and> e \<noteq> NoTimestamp \<and> e \<le> 100)"
    by (simp add: starvedRoot_def emptyRoot_def NoTimestamp_def)
  note inst = markStarvedLanesAsExpired_assigns_and_expires [OF v, of 100]
  from inst h9 have "expirationTimes (markStarvedLanesAsExpired starvedRoot 100) (int 9) =
      Some (if (9::nat) \<le> 7 then 100 + 250 else if (9::nat) \<le> 21 then 100 + 5000 else NoTimestamp)"
    by blast
  moreover from inst h0 have "bit (expiredLanes (markStarvedLanesAsExpired starvedRoot 100)) 0"
    by blast
  ultimately show ?thesis using v by simp
qed

subsection \<open>getNextLanes\<close>

lemma isSubsetOfLanes_bit: "isSubsetOfLanes x y \<longleftrightarrow> (\<forall>j. bit y j \<longrightarrow> bit x j)"
proof
  assume "isSubsetOfLanes x y"
  then have e: "x AND y = y" by (simp add: isSubsetOfLanes_def)
  show "\<forall>j. bit y j \<longrightarrow> bit x j"
  proof (intro allI impI)
    fix j assume "bit y j"
    then have "bit (x AND y) j" by (simp add: e)
    then show "bit x j" by (simp add: bit_simps)
  qed
next
  assume "\<forall>j. bit y j \<longrightarrow> bit x j"
  then have "x AND y = y" by (intro bit_word_eqI) (auto simp: bit_simps)
  then show "isSubsetOfLanes x y" by (simp add: isSubsetOfLanes_def)
qed

lemma isSubsetOfLanes_laneAt: "i < 32 \<Longrightarrow> isSubsetOfLanes x (laneAt i) \<longleftrightarrow> bit x i"
  by (auto simp: isSubsetOfLanes_bit bit_laneAt)

lemma bit_getEqualOrHigherPriorityLanes:
  assumes "w \<noteq> 0"
  shows "bit (getEqualOrHigherPriorityLanes w) j \<longleftrightarrow> j \<le> topBit w \<and> j < 32"
proof -
  have c: "clz32 w < 32" by (rule topBit_props(1)[OF assms])
  then have t: "topBit w < 32" by (simp add: topBit_def)
  have i: "31 - int (clz32 w) = int (topBit w)" using c by (simp add: topBit_def)
  have "getLowestPriorityLane w = laneAt (topBit w)"
    by (simp add: getLowestPriorityLane_def Let_def i js_shl_1_nat[OF t])
  then have "getEqualOrHigherPriorityLanes w = (mask (Suc (topBit w)) :: 32 word)"
    by (simp add: getEqualOrHigherPriorityLanes_def js_shl_def laneAt_def mask_eq_exp_minus_1)
  then show ?thesis by (auto simp: bit_simps)
qed

lemma subset_getEqualOrHigherPriorityLanes:
  assumes "w \<noteq> 0"
  shows "isSubsetOfLanes (getEqualOrHigherPriorityLanes w) w"
  unfolding isSubsetOfLanes_bit
proof (intro allI impI)
  fix j assume b: "bit w j"
  have "j \<le> topBit w" using topBit_props(3)[OF assms, of j] b by (cases "topBit w < j") auto
  then show "bit (getEqualOrHigherPriorityLanes w) j"
    using bit_imp_le_length[OF b] by (simp add: bit_getEqualOrHigherPriorityLanes[OF assms])
qed

lemma getNextLanes_entangled_loop_mono:
  "bit nextLanes j \<Longrightarrow> bit (getNextLanes_entangled_loop entangl lanes nextLanes) j"
proof (induction entangl lanes nextLanes rule: getNextLanes_entangled_loop.induct)
  case (1 entangl lanes nextLanes)
  show ?case
  proof (cases "js_positive lanes")
    case False
    then show ?thesis using "1.prems" by (subst getNextLanes_entangled_loop.simps) simp
  next
    case True
    have "bit (nextLanes OR laneMapGet entangl (pickArbitraryLaneIndex lanes)) j"
      using "1.prems" by (simp add: bit_simps)
    from "1.IH"[OF True refl refl this] True show ?thesis
      by (subst getNextLanes_entangled_loop.simps) (simp add: Let_def)
  qed
qed

lemma getNextLanes_entangled_loop_adds:
  "validLanes lanes \<Longrightarrow> bit lanes i \<Longrightarrow> bit (laneMapGet entangl (int i)) j \<Longrightarrow>
   bit (getNextLanes_entangled_loop entangl lanes nextLanes) j"
proof (induction entangl lanes nextLanes rule: getNextLanes_entangled_loop.induct)
  case (1 entangl lanes nextLanes)
  from "1.prems" have nz: "lanes \<noteq> 0" by auto
  with "1.prems" have pos: "js_positive lanes" by (simp add: js_positive_iff validLanes_def)
  let ?index = "pickArbitraryLaneIndex lanes"
  let ?lane = "js_shl 1 ?index"
  have idx: "?index = int (topBit lanes)" by (rule pickArbitraryLaneIndex_topBit[OF nz])
  have unfold: "getNextLanes_entangled_loop entangl lanes nextLanes =
      getNextLanes_entangled_loop entangl (lanes AND NOT ?lane)
        (nextLanes OR laneMapGet entangl ?index)"
    using pos by (subst getNextLanes_entangled_loop.simps) (simp add: Let_def)
  show ?case
  proof (cases "i = topBit lanes")
    case True
    then have "bit (nextLanes OR laneMapGet entangl ?index) j"
      using "1.prems"(3) by (simp add: bit_simps idx)
    then show ?thesis unfolding unfold by (rule getNextLanes_entangled_loop_mono)
  next
    case False
    then have "bit (lanes AND NOT ?lane) i"
      using "1.prems"(2) by (simp add: bit_clear_top[OF pos])
    from "1.IH"[OF pos refl refl validLanes_clear[OF "1.prems"(1)] this "1.prems"(3)]
    show ?thesis unfolding unfold .
  qed
qed

lemma priority_below_sync:
  "SyncLane AND wipLanes = NoLanes \<Longrightarrow> snd (getHighestPriorityLanes wipLanes) < SyncLanePriority"
  by (simp add: getHighestPriorityLanes_def SyncLanePriority_def SyncBatchedLanePriority_def
      InputDiscreteHydrationLanePriority_def InputDiscreteLanePriority_def
      InputContinuousHydrationLanePriority_def InputContinuousLanePriority_def
      DefaultHydrationLanePriority_def DefaultLanePriority_def TransitionHydrationPriority_def
      TransitionPriority_def RetryLanePriority_def SelectiveHydrationLanePriority_def
      IdleHydrationLanePriority_def IdleLanePriority_def OffscreenLanePriority_def)

lemma getNextLanes_entangled_loop_zero [simp]:
  "getNextLanes_entangled_loop entangl 0 nextLanes = nextLanes"
  by (subst getNextLanes_entangled_loop.simps) (simp add: js_positive_iff)

lemma getNextLanes_kept:
  assumes "getNextLanes_keepsWip root wipLanes"
  shows "getNextLanes root wipLanes = wipLanes"
proof -
  obtain n p where np: "getNextLanes_select root = (n, p)"
    by (cases "getNextLanes_select root")
  show ?thesis
    using assms by (auto simp: getNextLanes_def getNextLanes_keepsWip_def np Let_def)
qed

lemma getNextLanes_not_kept:
  assumes "\<not> getNextLanes_keepsWip root wipLanes"
  shows "getNextLanes root wipLanes =
    getNextLanes_entangled_loop (entanglements root)
      (getNextLanes (root\<lparr>entangledLanes := NoLanes\<rparr>) wipLanes AND entangledLanes root)
      (getNextLanes (root\<lparr>entangledLanes := NoLanes\<rparr>) wipLanes)"
proof -
  have sel: "getNextLanes_select (root\<lparr>entangledLanes := NoLanes\<rparr>) = getNextLanes_select root"
    by (simp add: getNextLanes_select_def Let_def)
  obtain n p where np: "getNextLanes_select root = (n, p)"
    by (cases "getNextLanes_select root")
  let ?M = "pendingLanes root AND getEqualOrHigherPriorityLanes n"
  have nk: "pendingLanes root = NoLanes \<or> n = NoLanes
      \<or> \<not> (wipLanes \<noteq> NoLanes \<and> wipLanes \<noteq> ?M \<and> wipLanes AND suspendedLanes root = NoLanes
            \<and> p \<le> snd (getHighestPriorityLanes wipLanes))"
    using assms by (auto simp: getNextLanes_keepsWip_def np)
  have N: "getNextLanes (root\<lparr>entangledLanes := NoLanes\<rparr>) wipLanes =
      (if pendingLanes root = NoLanes \<or> n = NoLanes then NoLanes else ?M)"
    using nk by (auto simp: getNextLanes_def sel np Let_def)
  have R: "getNextLanes root wipLanes =
      (if pendingLanes root = NoLanes \<or> n = NoLanes then NoLanes
       else if entangledLanes root \<noteq> NoLanes
         then getNextLanes_entangled_loop (entanglements root) (?M AND entangledLanes root) ?M
       else ?M)"
    using nk by (auto simp: getNextLanes_def np Let_def)
  show ?thesis
    unfolding N R by (simp add: NoLanes_def)
qed

text \<open>
  C2 (as amended). For every root whose \<open>expiredLanes\<close> are nonempty and pending (a subset
  of \<open>pendingLanes\<close>, as \<open>markRootExpired\<close>, \<open>markStarvedLanesAsExpired\<close> and
  \<open>markRootFinished\<close> keep them), \<open>getNextLanes\<close> returns a set that includes every expired
  lane, whatever higher-priority lanes are pending, unless a render is in progress on lanes
  \<open>wipLanes\<close> that include \<open>SyncLane\<close> and none of which is suspended.
\<close>

theorem getNextLanes_includes_expired:
  assumes "expiredLanes root \<noteq> NoLanes"
    and "isSubsetOfLanes (pendingLanes root) (expiredLanes root)"
    and "wipLanes AND SyncLane = NoLanes \<or> wipLanes AND suspendedLanes root \<noteq> NoLanes"
  shows "isSubsetOfLanes (getNextLanes root wipLanes) (expiredLanes root)"
proof -
  let ?N = "pendingLanes root AND getEqualOrHigherPriorityLanes (expiredLanes root)"
  have e0: "expiredLanes root \<noteq> 0" using assms(1) by (simp add: NoLanes_def)
  have p0: "pendingLanes root \<noteq> NoLanes"
    using assms(1,2) by (auto simp: isSubsetOfLanes_def NoLanes_def)
  have noret: "\<not> (wipLanes \<noteq> NoLanes \<and> wipLanes \<noteq> ?N
              \<and> wipLanes AND suspendedLanes root = NoLanes
              \<and> SyncLanePriority \<le> snd (getHighestPriorityLanes wipLanes))"
    using assms(3) priority_below_sync[of wipLanes] by (auto simp: word_bw_comms)
  have res: "getNextLanes root wipLanes =
      (if entangledLanes root \<noteq> NoLanes
       then getNextLanes_entangled_loop (entanglements root) (?N AND entangledLanes root) ?N
       else ?N)"
    using p0 assms(1) noret by (auto simp: getNextLanes_def getNextLanes_select_def Let_def)
  have N: "bit ?N j" if "bit (expiredLanes root) j" for j
    using that assms(2) subset_getEqualOrHigherPriorityLanes[OF e0]
    by (simp add: isSubsetOfLanes_bit bit_simps)
  show ?thesis
    unfolding isSubsetOfLanes_bit res
    by (auto intro: getNextLanes_entangled_loop_mono N)
qed


text \<open>
  The statement on a root with \<open>SyncLane\<close> and a default lane (bit 9) pending, the default
  lane expired, and a render in progress on \<open>SyncBatchedLane\<close>.
\<close>

theorem getNextLanes_includes_expired_witness:
  "expiredLanes expiredRoot \<noteq> NoLanes
   \<and> isSubsetOfLanes (pendingLanes expiredRoot) (expiredLanes expiredRoot)
   \<and> (SyncBatchedLane AND SyncLane = NoLanes
        \<or> SyncBatchedLane AND suspendedLanes expiredRoot \<noteq> NoLanes)
   \<and> isSubsetOfLanes (getNextLanes expiredRoot SyncBatchedLane) (expiredLanes expiredRoot)"
proof -
  have h1: "expiredLanes expiredRoot \<noteq> NoLanes"
    by (simp add: expiredRoot_def NoLanes_def)
  have h2: "isSubsetOfLanes (pendingLanes expiredRoot) (expiredLanes expiredRoot)"
    by (simp add: expiredRoot_def isSubsetOfLanes_def)
  have h3: "SyncBatchedLane AND SyncLane = NoLanes
      \<or> SyncBatchedLane AND suspendedLanes expiredRoot \<noteq> NoLanes"
    by (simp add: SyncBatchedLane_def SyncLane_def NoLanes_def)
  from getNextLanes_includes_expired [OF h1 h2 h3] h1 h2 h3 show ?thesis
    by simp
qed

text \<open>
  C2 as stated fails: on the same root, with a render in progress on \<open>SyncLane\<close>,
  \<open>getNextLanes\<close> keeps the lanes in progress, which do not include the expired lane.
\<close>

theorem getNextLanes_keeps_sync_work_in_progress:
  "expiredLanes expiredRoot \<noteq> NoLanes
   \<and> \<not> isSubsetOfLanes (getNextLanes expiredRoot SyncLane) (expiredLanes expiredRoot)"
  by code_simp

text \<open>
  C3 (as amended). Let lanes \<open>a\<close> and \<open>b\<close> be entangled by \<open>markRootEntangled root L\<close>, for a
  valid lane set \<open>L\<close> that contains both, and let \<open>wipLanes\<close> be any lanes that \<open>getNextLanes\<close>
  does not keep: it keeps them, and returns them as they are, only when they are nonempty,
  differ from the selection, have no suspended lane, and the selection's priority is not
  higher than theirs. If the lanes that \<open>getNextLanes\<close> chooses before it adds the entangled
  ones (its result on the root with \<open>entangledLanes\<close> cleared) contain \<open>a\<close>, then the lanes it
  returns contain \<open>a\<close> and \<open>b\<close>.
\<close>

theorem getNextLanes_includes_entangled:
  assumes "validLanes L" and "validLanes (entangledLanes root)"
    and "bit L a" and "bit L b"
    and "\<not> getNextLanes_keepsWip (markRootEntangled root L) wipLanes"
    and "isSubsetOfLanes
          (getNextLanes ((markRootEntangled root L)\<lparr>entangledLanes := NoLanes\<rparr>) wipLanes)
          (laneAt a)"
  shows "isSubsetOfLanes (getNextLanes (markRootEntangled root L) wipLanes) (laneAt a)
       \<and> isSubsetOfLanes (getNextLanes (markRootEntangled root L) wipLanes) (laneAt b)"
proof -
  let ?R = "markRootEntangled root L"
  let ?N = "getNextLanes (?R\<lparr>entangledLanes := NoLanes\<rparr>) wipLanes"
  have a32: "a < 32" and b32: "b < 32"
    using bit_imp_le_length[OF assms(3)] bit_imp_le_length[OF assms(4)] by simp_all
  have res: "getNextLanes ?R wipLanes =
      getNextLanes_entangled_loop (entanglements ?R) (?N AND entangledLanes ?R) ?N"
    by (rule getNextLanes_not_kept[OF assms(5)])
  have Na: "bit ?N a" using assms(6) by (simp add: isSubsetOfLanes_laneAt[OF a32])
  have v: "validLanes (?N AND entangledLanes ?R)"
    using assms(1,2) by (simp add: validLanes_def markRootEntangled_def bit_simps)
  have la: "bit (?N AND entangledLanes ?R) a"
    using Na assms(3) by (simp add: markRootEntangled_def bit_simps)
  have ent: "bit (laneMapGet (entanglements ?R) (int a)) b"
    using assms(3,4)
    by (simp add: markRootEntangled_def markRootEntangled_loop_get[OF assms(1)]
        laneMapGet_def bit_simps)
  have "bit (getNextLanes ?R wipLanes) a"
    unfolding res using Na by (rule getNextLanes_entangled_loop_mono)
  moreover have "bit (getNextLanes ?R wipLanes) b"
    unfolding res using v la ent by (rule getNextLanes_entangled_loop_adds)
  ultimately show ?thesis
    by (simp add: isSubsetOfLanes_laneAt a32 b32)
qed

text \<open>
  The statement on a root with a default lane (bit 9) and a transition lane (bit 13)
  pending and entangled, with a render in progress on the transition lane: the render is
  interrupted, the default lane is chosen, and the transition lane comes with it.
\<close>

theorem getNextLanes_includes_entangled_witness:
  "validLanes entangledPair \<and> validLanes (entangledLanes transitionRoot)
   \<and> bit entangledPair 9 \<and> bit entangledPair 13
   \<and> \<not> getNextLanes_keepsWip (markRootEntangled transitionRoot entangledPair) (laneAt 13)
   \<and> isSubsetOfLanes
        (getNextLanes ((markRootEntangled transitionRoot entangledPair)\<lparr>entangledLanes := NoLanes\<rparr>)
           (laneAt 13))
        (laneAt 9)
   \<and> \<not> isSubsetOfLanes
        (getNextLanes ((markRootEntangled transitionRoot entangledPair)\<lparr>entangledLanes := NoLanes\<rparr>)
           (laneAt 13))
        (laneAt 13)
   \<and> isSubsetOfLanes (getNextLanes (markRootEntangled transitionRoot entangledPair) (laneAt 13))
        (laneAt 13)"
proof -
  have h1: "validLanes entangledPair"
    by (simp add: validLanes_def entangledPair_def)
  have h2: "validLanes (entangledLanes transitionRoot)"
    by (simp add: validLanes_def transitionRoot_def emptyRoot_def NoLanes_def)
  have h3: "bit entangledPair 9" and h4: "bit entangledPair 13"
    by (simp_all add: entangledPair_def)
  have h5: "\<not> getNextLanes_keepsWip (markRootEntangled transitionRoot entangledPair) (laneAt 13)"
    by code_simp
  have h6: "isSubsetOfLanes
        (getNextLanes ((markRootEntangled transitionRoot entangledPair)\<lparr>entangledLanes := NoLanes\<rparr>)
           (laneAt 13))
        (laneAt 9)"
    by code_simp
  have h7: "\<not> isSubsetOfLanes
        (getNextLanes ((markRootEntangled transitionRoot entangledPair)\<lparr>entangledLanes := NoLanes\<rparr>)
           (laneAt 13))
        (laneAt 13)"
    by code_simp
  from getNextLanes_includes_entangled [OF h1 h2 h3 h4 h5 h6] h1 h2 h3 h4 h5 h6 h7 show ?thesis
    by simp
qed

text \<open>
  C3 as stated fails: with two default lanes (bits 9 and 10) pending and entangled and a
  render in progress on the first, \<open>getNextLanes\<close> keeps the lanes in progress, which
  contain the first lane without the second.
\<close>

theorem getNextLanes_work_in_progress_splits_entangled:
  "isSubsetOfLanes
     (getNextLanes (markRootEntangled entangledRoot (laneAt 9 OR laneAt 10)) (laneAt 9)) (laneAt 9)
   \<and> \<not> isSubsetOfLanes
     (getNextLanes (markRootEntangled entangledRoot (laneAt 9 OR laneAt 10)) (laneAt 9)) (laneAt 10)"
  by code_simp

section \<open>Properties of the scheduler\<close>

subsection \<open>unstable_scheduleCallback\<close>

lemma scheduleCallback_ref:
  "fst (unstable_scheduleCallback level cb opts s) = taskIdCounter s"
  by (simp add: unstable_scheduleCallback_def Let_def)

lemma scheduleCallback_delayed:
  assumes "startOf opts s > getCurrentTime s"
  shows "objects (snd (unstable_scheduleCallback level cb opts s)) =
      (objects s)(taskIdCounter s :=
        \<lparr>taskId = taskIdCounter s, callback = Some cb, priorityLevel = level,
         startTime = startOf opts s, expirationTime = startOf opts s + timeoutOf level,
         sortIndex = startOf opts s\<rparr>)"
    and "taskQueue (snd (unstable_scheduleCallback level cb opts s)) = taskQueue s"
    and "timerQueue (snd (unstable_scheduleCallback level cb opts s))
          = push (timerQueue s) (taskIdCounter s)"
  using assms
  by (simp_all add: unstable_scheduleCallback_def Let_def startOf_def[symmetric]
      timeoutOf_def[symmetric] requestHostTimeout_def cancelHostTimeout_def)

lemma scheduleCallback_ready:
  assumes "\<not> startOf opts s > getCurrentTime s"
  shows "objects (snd (unstable_scheduleCallback level cb opts s)) =
      (objects s)(taskIdCounter s :=
        \<lparr>taskId = taskIdCounter s, callback = Some cb, priorityLevel = level,
         startTime = startOf opts s, expirationTime = startOf opts s + timeoutOf level,
         sortIndex = startOf opts s + timeoutOf level\<rparr>)"
    and "taskQueue (snd (unstable_scheduleCallback level cb opts s))
          = push (taskQueue s) (taskIdCounter s)"
    and "timerQueue (snd (unstable_scheduleCallback level cb opts s)) = timerQueue s"
    and "hostTime (snd (unstable_scheduleCallback level cb opts s)) = hostTime s"
    and "taskIdCounter (snd (unstable_scheduleCallback level cb opts s)) = Suc (taskIdCounter s)"
  using assms
  by (simp_all add: unstable_scheduleCallback_def Let_def startOf_def[symmetric]
      timeoutOf_def[symmetric] requestHostCallback_def)


lemma timeoutOf_table:
  "timeoutOf level =
     (if level = ImmediatePriority then -1
      else if level = UserBlockingPriority then 250
      else if level = NormalPriority then 5000
      else if level = LowPriority then 10000
      else if level = IdlePriority then 1073741823
      else 5000)"
  by (simp add: timeoutOf_def ImmediatePriority_def UserBlockingPriority_def NormalPriority_def
      LowPriority_def IdlePriority_def IMMEDIATE_PRIORITY_TIMEOUT_def
      USER_BLOCKING_PRIORITY_TIMEOUT_def NORMAL_PRIORITY_TIMEOUT_def LOW_PRIORITY_TIMEOUT_def
      IDLE_PRIORITY_TIMEOUT_def maxSigned31BitInt_def)

lemma scheduleCallback_times:
  "expirationTime (objects (snd (unstable_scheduleCallback level cb opts s)) (taskIdCounter s))
     = startOf opts s + timeoutOf level"
  "startTime (objects (snd (unstable_scheduleCallback level cb opts s)) (taskIdCounter s))
     = startOf opts s"
  by (cases "startOf opts s > getCurrentTime s";
      simp add: scheduleCallback_delayed scheduleCallback_ready)+

lemma startOf_NoOptions [simp]: "startOf NoOptions s = getCurrentTime s"
  by (simp add: startOf_def)

lemma scheduleCallback_immediate_then_normal:
  assumes "unstable_scheduleCallback ImmediatePriority cb1 NoOptions s = (i, s1)"
    and "unstable_scheduleCallback NormalPriority cb2 NoOptions s1 = (n, s2)"
  shows "compare (objects s2 i) (objects s2 n) < 0"
    and "taskQueue s = [] \<Longrightarrow> peek (objects s2) (taskQueue s2) = Some i"
proof -
  have i: "i = taskIdCounter s" and n: "n = taskIdCounter s1"
    using assms scheduleCallback_ref[of ImmediatePriority cb1 NoOptions s]
      scheduleCallback_ref[of NormalPriority cb2 NoOptions s1] by simp_all
  have s1: "s1 = snd (unstable_scheduleCallback ImmediatePriority cb1 NoOptions s)"
    and s2: "s2 = snd (unstable_scheduleCallback NormalPriority cb2 NoOptions s1)"
    using assms by simp_all
  have r1: "\<not> startOf NoOptions s > getCurrentTime s"
    and r2: "\<not> startOf NoOptions s1 > getCurrentTime s1" by simp_all
  have t1: "getCurrentTime s1 = getCurrentTime s"
    unfolding s1 getCurrentTime_def by (rule scheduleCallback_ready(4)[OF r1])
  have c1: "taskIdCounter s1 = Suc (taskIdCounter s)"
    unfolding s1 by (rule scheduleCallback_ready(5)[OF r1])
  have o2: "objects s2 = (objects s1)(taskIdCounter s1 :=
        \<lparr>taskId = taskIdCounter s1, callback = Some cb2, priorityLevel = NormalPriority,
         startTime = getCurrentTime s, expirationTime = getCurrentTime s + timeoutOf NormalPriority,
         sortIndex = getCurrentTime s + timeoutOf NormalPriority\<rparr>)"
    unfolding s2 using scheduleCallback_ready(1)[OF r2, of NormalPriority cb2] by (simp add: t1)
  have o1: "objects s1 = (objects s)(taskIdCounter s :=
        \<lparr>taskId = taskIdCounter s, callback = Some cb1, priorityLevel = ImmediatePriority,
         startTime = getCurrentTime s, expirationTime = getCurrentTime s + timeoutOf ImmediatePriority,
         sortIndex = getCurrentTime s + timeoutOf ImmediatePriority\<rparr>)"
    unfolding s1 using scheduleCallback_ready(1)[OF r1, of ImmediatePriority cb1] by simp
  show cmp: "compare (objects s2 i) (objects s2 n) < 0"
    by (simp add: i n o2 o1 c1 compare_def Let_def timeoutOf_table
        ImmediatePriority_def NormalPriority_def)
  assume e: "taskQueue s = []"
  have q: "taskQueue s2 = [i, n]"
    unfolding s2 scheduleCallback_ready(2)[OF r2] unfolding s1 scheduleCallback_ready(2)[OF r1]
    by (simp add: e push_def i n c1 s1[symmetric])
  have "\<not> compare (objects s2 n) (objects s2 i) < 0"
    by (simp add: i n o2 o1 c1 compare_def Let_def timeoutOf_table
        ImmediatePriority_def NormalPriority_def)
  then show "peek (objects s2) (taskQueue s2) = Some i"
    by (simp add: q peek_def)
qed

lemma scheduleCallback_normal_then_immediate:
  assumes "unstable_scheduleCallback NormalPriority cb2 NoOptions s = (n, s1)"
    and "unstable_scheduleCallback ImmediatePriority cb1 NoOptions s1 = (i, s2)"
  shows "compare (objects s2 i) (objects s2 n) < 0"
    and "taskQueue s = [] \<Longrightarrow> peek (objects s2) (taskQueue s2) = Some i"
proof -
  have n: "n = taskIdCounter s" and i: "i = taskIdCounter s1"
    using assms scheduleCallback_ref[of NormalPriority cb2 NoOptions s]
      scheduleCallback_ref[of ImmediatePriority cb1 NoOptions s1] by simp_all
  have s1: "s1 = snd (unstable_scheduleCallback NormalPriority cb2 NoOptions s)"
    and s2: "s2 = snd (unstable_scheduleCallback ImmediatePriority cb1 NoOptions s1)"
    using assms by simp_all
  have r1: "\<not> startOf NoOptions s > getCurrentTime s"
    and r2: "\<not> startOf NoOptions s1 > getCurrentTime s1" by simp_all
  have t1: "getCurrentTime s1 = getCurrentTime s"
    unfolding s1 getCurrentTime_def by (rule scheduleCallback_ready(4)[OF r1])
  have c1: "taskIdCounter s1 = Suc (taskIdCounter s)"
    unfolding s1 by (rule scheduleCallback_ready(5)[OF r1])
  have o2: "objects s2 = (objects s1)(taskIdCounter s1 :=
        \<lparr>taskId = taskIdCounter s1, callback = Some cb1, priorityLevel = ImmediatePriority,
         startTime = getCurrentTime s, expirationTime = getCurrentTime s + timeoutOf ImmediatePriority,
         sortIndex = getCurrentTime s + timeoutOf ImmediatePriority\<rparr>)"
    unfolding s2 using scheduleCallback_ready(1)[OF r2, of ImmediatePriority cb1] by (simp add: t1)
  have o1: "objects s1 = (objects s)(taskIdCounter s :=
        \<lparr>taskId = taskIdCounter s, callback = Some cb2, priorityLevel = NormalPriority,
         startTime = getCurrentTime s, expirationTime = getCurrentTime s + timeoutOf NormalPriority,
         sortIndex = getCurrentTime s + timeoutOf NormalPriority\<rparr>)"
    unfolding s1 using scheduleCallback_ready(1)[OF r1, of NormalPriority cb2] by simp
  show cmp: "compare (objects s2 i) (objects s2 n) < 0"
    by (simp add: i n o2 o1 c1 compare_def Let_def timeoutOf_table
        ImmediatePriority_def NormalPriority_def)
  assume e: "taskQueue s = []"
  have q: "taskQueue s2 = [n, i]"
    unfolding s2 scheduleCallback_ready(2)[OF r2] unfolding s1 scheduleCallback_ready(2)[OF r1]
    by (simp add: e push_def i n c1 s1[symmetric])
  show "peek (objects s2) (taskQueue s2) = Some i"
    using cmp by (simp add: q peek_def)
qed


text \<open>
  C4. For every priority level, \<open>unstable_scheduleCallback\<close> gives the task the timeout
  -1 for Immediate, 250 for UserBlocking, 5000 for Normal, 10000 for Low, 1073741823 for
  Idle and 5000 for any other value, and sets \<open>expirationTime = startTime + timeout\<close>. So a
  task scheduled at Immediate priority with no delay has \<open>expirationTime \<le> now\<close> at creation,
  and it is ordered before a Normal-priority task scheduled at the same instant, whichever
  of the two is scheduled first: the comparison of the heap puts it first, and it is the
  head of a task queue that was empty before.
\<close>

theorem scheduleCallback_timeout_and_order:
  "expirationTime (objects (snd (unstable_scheduleCallback level cb opts s))
        (fst (unstable_scheduleCallback level cb opts s)))
     = startTime (objects (snd (unstable_scheduleCallback level cb opts s))
        (fst (unstable_scheduleCallback level cb opts s)))
       + (if level = ImmediatePriority then -1
          else if level = UserBlockingPriority then 250
          else if level = NormalPriority then 5000
          else if level = LowPriority then 10000
          else if level = IdlePriority then 1073741823
          else 5000)
   \<and> (opts = NoOptions \<or> opts = Options None \<longrightarrow>
        expirationTime (objects (snd (unstable_scheduleCallback ImmediatePriority cb opts s))
          (fst (unstable_scheduleCallback ImmediatePriority cb opts s))) \<le> getCurrentTime s)
   \<and> (\<forall>i s1 n s2.
        unstable_scheduleCallback ImmediatePriority cb1 NoOptions s = (i, s1)
        \<and> unstable_scheduleCallback NormalPriority cb2 NoOptions s1 = (n, s2) \<longrightarrow>
          compare (objects s2 i) (objects s2 n) < 0
          \<and> (taskQueue s = [] \<longrightarrow> peek (objects s2) (taskQueue s2) = Some i))
   \<and> (\<forall>i s1 n s2.
        unstable_scheduleCallback NormalPriority cb2 NoOptions s = (n, s1)
        \<and> unstable_scheduleCallback ImmediatePriority cb1 NoOptions s1 = (i, s2) \<longrightarrow>
          compare (objects s2 i) (objects s2 n) < 0
          \<and> (taskQueue s = [] \<longrightarrow> peek (objects s2) (taskQueue s2) = Some i))"
proof (intro conjI allI impI)
  show "expirationTime (objects (snd (unstable_scheduleCallback level cb opts s))
        (fst (unstable_scheduleCallback level cb opts s)))
     = startTime (objects (snd (unstable_scheduleCallback level cb opts s))
        (fst (unstable_scheduleCallback level cb opts s)))
       + (if level = ImmediatePriority then -1
          else if level = UserBlockingPriority then 250
          else if level = NormalPriority then 5000
          else if level = LowPriority then 10000
          else if level = IdlePriority then 1073741823
          else 5000)"
    unfolding scheduleCallback_ref scheduleCallback_times timeoutOf_table ..
next
  assume "opts = NoOptions \<or> opts = Options None"
  then have "startOf opts s = getCurrentTime s" by (auto simp: startOf_def)
  then show "expirationTime (objects (snd (unstable_scheduleCallback ImmediatePriority cb opts s))
          (fst (unstable_scheduleCallback ImmediatePriority cb opts s))) \<le> getCurrentTime s"
    unfolding scheduleCallback_ref scheduleCallback_times timeoutOf_table by simp
next
  fix i s1 n s2
  assume a: "unstable_scheduleCallback ImmediatePriority cb1 NoOptions s = (i, s1)
        \<and> unstable_scheduleCallback NormalPriority cb2 NoOptions s1 = (n, s2)"
  show "compare (objects s2 i) (objects s2 n) < 0"
    using a scheduleCallback_immediate_then_normal(1) by blast
  show "peek (objects s2) (taskQueue s2) = Some i" if "taskQueue s = []"
    using a that scheduleCallback_immediate_then_normal(2) by blast
next
  fix i s1 n s2
  assume a: "unstable_scheduleCallback NormalPriority cb2 NoOptions s = (n, s1)
        \<and> unstable_scheduleCallback ImmediatePriority cb1 NoOptions s1 = (i, s2)"
  show "compare (objects s2 i) (objects s2 n) < 0"
    using a scheduleCallback_normal_then_immediate(1) by blast
  show "peek (objects s2) (taskQueue s2) = Some i" if "taskQueue s = []"
    using a that scheduleCallback_normal_then_immediate(2) by blast
qed

text \<open>
  The statement on the initial scheduler: a Normal task, then an Immediate task, both
  without delay.
\<close>

theorem scheduleCallback_witness:
  "taskQueue initialScheduler = []
   \<and> (case unstable_scheduleCallback NormalPriority noopTask NoOptions
            initialScheduler of
        (n, s1) \<Rightarrow>
          (case unstable_scheduleCallback ImmediatePriority noopTask NoOptions s1 of
             (i, s2) \<Rightarrow>
               n = 1 \<and> i = 2 \<and> expirationTime (objects s2 n) = 5000
               \<and> expirationTime (objects s2 i) = -1
               \<and> compare (objects s2 i) (objects s2 n) < 0
               \<and> peek (objects s2) (taskQueue s2) = Some i))"
proof -
  obtain n s1 where 1: "unstable_scheduleCallback NormalPriority noopTask NoOptions
      initialScheduler = (n, s1)" by (cases "unstable_scheduleCallback NormalPriority noopTask NoOptions initialScheduler")
  obtain i s2 where 2: "unstable_scheduleCallback ImmediatePriority noopTask
      NoOptions s1 = (i, s2)" by (cases "unstable_scheduleCallback ImmediatePriority noopTask NoOptions s1")
  have e: "taskQueue initialScheduler = []" by (simp add: initialScheduler_def)
  note t = scheduleCallback_timeout_and_order
    [of NormalPriority noopTask NoOptions initialScheduler
        noopTask noopTask]
  from t 1 2 e have o: "compare (objects s2 i) (objects s2 n) < 0
      \<and> peek (objects s2) (taskQueue s2) = Some i"
    by blast
  have n: "n = 1" using 1 scheduleCallback_ref[of NormalPriority noopTask NoOptions initialScheduler]
    by (simp add: initialScheduler_def)
  have s1: "s1 = snd (unstable_scheduleCallback NormalPriority noopTask NoOptions initialScheduler)"
    using 1 by simp
  have c1: "taskIdCounter s1 = 2"
    unfolding s1 by (simp add: scheduleCallback_ready(5) getCurrentTime_def initialScheduler_def)
  have i: "i = 2" using 2 scheduleCallback_ref[of ImmediatePriority noopTask NoOptions s1]
    by (simp add: c1)
  have s2: "s2 = snd (unstable_scheduleCallback ImmediatePriority noopTask NoOptions s1)"
    using 2 by simp
  have h1: "hostTime s1 = 0"
    unfolding s1 by (simp add: scheduleCallback_ready(4) getCurrentTime_def initialScheduler_def)
  have o1: "objects s1 (Suc 0) = \<lparr>taskId = 1, callback = Some noopTask,
      priorityLevel = NormalPriority, startTime = 0, expirationTime = 5000, sortIndex = 5000\<rparr>"
    unfolding s1
    by (simp add: scheduleCallback_ready(1) getCurrentTime_def initialScheduler_def timeoutOf_table
        NormalPriority_def ImmediatePriority_def UserBlockingPriority_def)
  have ei: "expirationTime (objects s2 2) = -1"
    unfolding s2 using scheduleCallback_times(1)[of ImmediatePriority noopTask NoOptions s1]
    by (simp add: c1 getCurrentTime_def h1 timeoutOf_table)
  have en: "expirationTime (objects s2 (Suc 0)) = 5000"
    unfolding s2
    by (simp add: scheduleCallback_ready(1) getCurrentTime_def h1 c1 o1)
  show ?thesis
    using o e by (simp add: 1 2 n i ei en)
qed


subsection \<open>unstable_runWithPriority\<close>

text \<open>
  C6. For every priority argument and every event handler, \<open>unstable_runWithPriority\<close> runs
  the handler once, in the state whose ambient priority is the given level if that is one
  of the five known levels and \<open>NormalPriority\<close> otherwise; the outcome of the call is the
  handler's outcome, its value or the exception it throws, so the call throws only if the
  handler does; and the ambient priority afterwards is the one before the call, in both
  cases.
\<close>

theorem runWithPriority_defaults_and_restores:
  "(let level' = (if level = ImmediatePriority \<or> level = UserBlockingPriority
                     \<or> level = NormalPriority \<or> level = LowPriority \<or> level = IdlePriority
                  then level else NormalPriority);
        ambient = s\<lparr>currentPriorityLevel := level'\<rparr>
    in fst (unstable_runWithPriority level eventHandler s) = fst (eventHandler ambient)
     \<and> snd (unstable_runWithPriority level eventHandler s)
         = (snd (eventHandler ambient))\<lparr>currentPriorityLevel := currentPriorityLevel s\<rparr>
     \<and> currentPriorityLevel (snd (unstable_runWithPriority level eventHandler s))
         = currentPriorityLevel s
     \<and> currentPriorityLevel ambient
         \<in> {ImmediatePriority, UserBlockingPriority, NormalPriority, LowPriority, IdlePriority}
     \<and> (level \<notin> {ImmediatePriority, UserBlockingPriority, NormalPriority, LowPriority,
           IdlePriority} \<longrightarrow> currentPriorityLevel ambient = NormalPriority)
     \<and> (level \<in> {ImmediatePriority, UserBlockingPriority, NormalPriority, LowPriority,
           IdlePriority} \<longrightarrow> currentPriorityLevel ambient = level))"
  by (cases "eventHandler (s\<lparr>currentPriorityLevel :=
        (if level = ImmediatePriority \<or> level = UserBlockingPriority
            \<or> level = NormalPriority \<or> level = LowPriority \<or> level = IdlePriority
         then level else NormalPriority)\<rparr>)")
    (auto simp: unstable_runWithPriority_def Let_def)


text \<open>
  An event handler that throws the ambient priority it sees, run at the unknown level 42
  from an ambient \<open>IdlePriority\<close>: it sees \<open>NormalPriority\<close>, its exception is the outcome of
  the call, and \<open>IdlePriority\<close> is restored.
\<close>

theorem runWithPriority_witness:
  "(42::int) \<notin> {ImmediatePriority, UserBlockingPriority, NormalPriority, LowPriority, IdlePriority}
   \<and> fst (unstable_runWithPriority 42 (\<lambda>s. (Inl (currentPriorityLevel s) :: int + unit, s))
        (initialScheduler\<lparr>currentPriorityLevel := IdlePriority\<rparr>)) = Inl NormalPriority
   \<and> currentPriorityLevel
        (snd (unstable_runWithPriority 42 (\<lambda>s. (Inl (currentPriorityLevel s) :: int + unit, s))
          (initialScheduler\<lparr>currentPriorityLevel := IdlePriority\<rparr>))) = IdlePriority"
  using runWithPriority_defaults_and_restores
    [of 42 "initialScheduler\<lparr>currentPriorityLevel := IdlePriority\<rparr>"
        "\<lambda>s. (Inl (currentPriorityLevel s) :: int + unit, s)"]
  by (simp add: Let_def ImmediatePriority_def UserBlockingPriority_def NormalPriority_def
      LowPriority_def IdlePriority_def)

subsection \<open>Cancellation\<close>



















subsection \<open>The work loop\<close>













end
